theory Spec2Isabelle
  imports Main "HOL-Library.Word"
begin

section \<open>Common types\<close>

type_synonym uint32 = "32 word"
type_synonym uint64 = "64 word"
type_synonym int64 = "64 word"
type_synonym int8 = "8 word"
type_synonym byte = "8 word"

text \<open>The named errors of package \<open>process\<close> that the modelled functions return.\<close>

datatype error =
    ErrNilCacher
  | ErrNilQuotaStatusHandler
  | ErrInvalidValue
  | ErrNilKeyGen
  | ErrNilSingleSigner
  | ErrNilAddressConverter
  | ErrNilEconomicsFeeHandler
  | ErrNilHeaderSigVerifier
  | ErrInvalidChainID
  | ErrNilValidityAttester
  | ErrNilEpochStartTrigger
  | ErrNilPubkeyConverter
  | ErrNilPoolsHolder
  | ErrNilTransactionPool
  | ErrNilRewardTxDataPool
  | ErrNilUnsignedTxDataPool
  | ErrNilRounder
  | ErrNilShardCoordinator
  | ErrNilAccountsAdapter
  | ErrNilMarshalizer
  | ErrNilHasher
  | ErrNilStore
  | ErrNilDataPoolHolder
  | ErrNilMessenger
  | ErrNilMultiSigVerifier
  | ErrNilNodesCoordinator
  | ErrNilBlackListHandler
  | ErrNilAntifloodHandler
  | ErrOther string

section \<open>Quota flood preventer (package floodPreventers)\<close>

subsection \<open>Data\<close>

definition minMessages :: uint32 where "minMessages = 1"
definition minTotalSize :: uint64 where "minTotalSize = 1"
definition initNumMessages :: uint32 where "initNumMessages = 1"

record quota =
  numReceivedMessages :: uint32
  sizeReceivedMessages :: uint64
  numProcessedMessages :: uint32
  sizeProcessedMessages :: uint64

text \<open>
  The cache stores values of type \<open>interface{}\<close>. The flood preventer only ever stores
  \<open>*quota\<close> pointers; any other dynamic type takes the \<open>!isQuota\<close> branch. A pointer is
  the index of the quota object in the store \<open>quotas\<close> of the state below, so that a
  mutation through a pointer obtained from \<open>Get\<close> is seen by the cache entry as well.
\<close>

datatype cacheValue = QuotaPtr nat | OtherValue

text \<open>
  Modelled from the spec: \<open>storage.Cacher\<close>, whose interface and implementations are not
  part of the sources at hand. Section 4.A describes it as a mapping from peer identifier
  to quota record with a fixed maximum number of entries and an LRU eviction policy,
  with operations \<open>get\<close>, \<open>put\<close>, \<open>keys\<close> and \<open>clear\<close>. The entries are kept most
  recently used first; \<open>Get\<close> of a present key and \<open>Put\<close> refresh the key, and \<open>Put\<close>
  drops the least recently used entries beyond \<open>maxEntries\<close>.
\<close>

record cacher =
  items :: "(string \<times> cacheValue) list"
  maxEntries :: nat

definition newCacher :: "nat \<Rightarrow> cacher" where
  "newCacher n = \<lparr>items = [], maxEntries = n\<rparr>"

definition cacher_Get :: "cacher \<Rightarrow> string \<Rightarrow> cacheValue option \<times> cacher" where
  "cacher_Get c k =
     (case map_of (items c) k of
        None \<Rightarrow> (None, c)
      | Some v \<Rightarrow> (Some v, c\<lparr>items := (k, v) # filter (\<lambda>e. fst e \<noteq> k) (items c)\<rparr>))"

definition cacher_Put :: "cacher \<Rightarrow> string \<Rightarrow> cacheValue \<Rightarrow> cacher" where
  "cacher_Put c k v =
     c\<lparr>items := take (maxEntries c) ((k, v) # filter (\<lambda>e. fst e \<noteq> k) (items c))\<rparr>"

definition cacher_Keys :: "cacher \<Rightarrow> string list" where
  "cacher_Keys c = rev (map fst (items c))"

definition cacher_Clear :: "cacher \<Rightarrow> cacher" where
  "cacher_Clear c = c\<lparr>items := []\<rparr>"

text \<open>
  A \<open>QuotaStatusHandler\<close> is an interface with the three methods below; a handler is
  modelled by the log of the calls it has received, oldest first.
\<close>

datatype statusEvent =
    ResetStatistics
  | AddQuota string uint32 uint64 uint32 uint64
  | SetGlobalQuota uint32 uint64 uint32 uint64

type_synonym QuotaStatusHandler = "statusEvent list"

record quotaFloodPreventer =
  cacher :: cacher
  quotas :: "quota list"
  statusHandlers :: "QuotaStatusHandler list"
  maxMessagesPerPeer :: uint32
  maxSizePerPeer :: uint64
  maxMessages :: uint32
  maxSize :: uint64
  globalQuota :: quota

definition emptyQuota :: quota where
  "emptyQuota = \<lparr>numReceivedMessages = 0, sizeReceivedMessages = 0,
                  numProcessedMessages = 0, sizeProcessedMessages = 0\<rparr>"

subsection \<open>Construction\<close>

text \<open>
  \<open>NewQuotaFloodPreventer\<close>: a nil cacher or a nil status handler is \<open>None\<close>. The store
  of quota objects starts empty: no \<open>*quota\<close> has been allocated yet.
\<close>

definition NewQuotaFloodPreventer ::
  "cacher option \<Rightarrow> QuotaStatusHandler option list \<Rightarrow> uint32 \<Rightarrow> uint64 \<Rightarrow> uint32 \<Rightarrow> uint64
     \<Rightarrow> error + quotaFloodPreventer" where
  "NewQuotaFloodPreventer cacherArg handlers maxMessagesPerPeerArg maxTotalSizePerPeer
       maxMessagesArg maxTotalSize =
     (case cacherArg of
        None \<Rightarrow> Inl ErrNilCacher
      | Some c \<Rightarrow>
          if list_ex (\<lambda>h. h = None) handlers then Inl ErrNilQuotaStatusHandler
          else if maxMessagesPerPeerArg < minMessages then Inl ErrInvalidValue
          else if maxTotalSizePerPeer < minTotalSize then Inl ErrInvalidValue
          else if maxMessagesArg < minMessages then Inl ErrInvalidValue
          else if maxTotalSize < minTotalSize then Inl ErrInvalidValue
          else Inr \<lparr>cacher = c, quotas = [], statusHandlers = map the handlers,
                    maxMessagesPerPeer = maxMessagesPerPeerArg,
                    maxSizePerPeer = maxTotalSizePerPeer,
                    maxMessages = maxMessagesArg, maxSize = maxTotalSize,
                    globalQuota = emptyQuota\<rparr>)"

subsection \<open>Accumulate\<close>

definition putDefaultQuota :: "quotaFloodPreventer \<Rightarrow> string \<Rightarrow> uint64 \<Rightarrow> quotaFloodPreventer" where
  "putDefaultQuota qfp identifier sz =
     qfp\<lparr>quotas := quotas qfp @
            [\<lparr>numReceivedMessages = initNumMessages, sizeReceivedMessages = sz,
              numProcessedMessages = initNumMessages, sizeProcessedMessages = sz\<rparr>],
         cacher := cacher_Put (cacher qfp) identifier (QuotaPtr (length (quotas qfp)))\<rparr>"

definition isGlobalQuotaReached :: "quotaFloodPreventer \<Rightarrow> bool" where
  "isGlobalQuotaReached qfp \<longleftrightarrow>
     numReceivedMessages (globalQuota qfp) > maxMessages qfp \<or>
     sizeReceivedMessages (globalQuota qfp) > maxSize qfp"

definition addReceived :: "quota \<Rightarrow> uint64 \<Rightarrow> quota" where
  "addReceived q sz =
     q\<lparr>numReceivedMessages := numReceivedMessages q + 1,
       sizeReceivedMessages := sizeReceivedMessages q + sz\<rparr>"

definition addProcessed :: "quota \<Rightarrow> uint64 \<Rightarrow> quota" where
  "addProcessed q sz =
     q\<lparr>numProcessedMessages := numProcessedMessages q + 1,
       sizeProcessedMessages := sizeProcessedMessages q + sz\<rparr>"

definition isPeerQuotaReached :: "quotaFloodPreventer \<Rightarrow> quota \<Rightarrow> bool" where
  "isPeerQuotaReached qfp q \<longleftrightarrow>
     numReceivedMessages q > maxMessagesPerPeer qfp \<or>
     sizeReceivedMessages q > maxSizePerPeer qfp"

text \<open>
  \<open>accumulate\<close>, in the order of the source: the global check, the lookup, the type
  assertion, the increment of the received counters through the pointer, the peer check
  (returning with the object already mutated), and on success the \<open>Put\<close> followed by the
  increment of the processed counters, again through the pointer. A pointer found in the
  cache is dereferenced as an index of the store; in Go it always refers to a live
  object, which is the condition \<open>wellFormed\<close> below.
\<close>

definition accumulate :: "quotaFloodPreventer \<Rightarrow> string \<Rightarrow> uint64 \<Rightarrow> bool \<times> quotaFloodPreventer" where
  "accumulate qfp identifier sz =
     (if isGlobalQuotaReached qfp then (False, qfp)
      else
        case cacher_Get (cacher qfp) identifier of
          (None, c) \<Rightarrow> (True, putDefaultQuota (qfp\<lparr>cacher := c\<rparr>) identifier sz)
        | (Some OtherValue, c) \<Rightarrow> (True, putDefaultQuota (qfp\<lparr>cacher := c\<rparr>) identifier sz)
        | (Some (QuotaPtr a), c) \<Rightarrow>
            let q1 = addReceived (quotas qfp ! a) sz;
                qfp1 = qfp\<lparr>cacher := c, quotas := (quotas qfp)[a := q1]\<rparr>
            in if isPeerQuotaReached qfp q1 then (False, qfp1)
               else (True, qfp1\<lparr>cacher := cacher_Put c identifier (QuotaPtr a),
                                quotas := (quotas qfp1)[a := addProcessed q1 sz]\<rparr>))"

definition Accumulate :: "quotaFloodPreventer \<Rightarrow> string \<Rightarrow> uint64 \<Rightarrow> bool \<times> quotaFloodPreventer" where
  "Accumulate qfp identifier sz = accumulate qfp identifier sz"

definition AccumulateGlobal :: "quotaFloodPreventer \<Rightarrow> string \<Rightarrow> uint64 \<Rightarrow> bool \<times> quotaFloodPreventer" where
  "AccumulateGlobal qfp identifier sz =
     (case accumulate (qfp\<lparr>globalQuota := addReceived (globalQuota qfp) sz\<rparr>) identifier sz of
        (isQuotaNotReached, qfp1) \<Rightarrow>
          if isQuotaNotReached
          then (True, qfp1\<lparr>globalQuota := addProcessed (globalQuota qfp1) sz\<rparr>)
          else (False, qfp1))"

subsection \<open>Reset\<close>

definition resetStatusHandlers :: "quotaFloodPreventer \<Rightarrow> quotaFloodPreventer" where
  "resetStatusHandlers qfp =
     qfp\<lparr>statusHandlers := map (\<lambda>h. h @ [ResetStatistics]) (statusHandlers qfp)\<rparr>"

definition addQuota ::
  "quotaFloodPreventer \<Rightarrow> string \<Rightarrow> uint32 \<Rightarrow> uint64 \<Rightarrow> uint32 \<Rightarrow> uint64 \<Rightarrow> quotaFloodPreventer" where
  "addQuota qfp identifier numReceived sizeReceived numProcessed sizeProcessed =
     qfp\<lparr>statusHandlers :=
           map (\<lambda>h. h @ [AddQuota identifier numReceived sizeReceived numProcessed sizeProcessed])
               (statusHandlers qfp)\<rparr>"

definition setGlobalQuota ::
  "quotaFloodPreventer \<Rightarrow> uint32 \<Rightarrow> uint64 \<Rightarrow> uint32 \<Rightarrow> uint64 \<Rightarrow> quotaFloodPreventer" where
  "setGlobalQuota qfp numReceived sizeReceived numProcessed sizeProcessed =
     qfp\<lparr>statusHandlers :=
           map (\<lambda>h. h @ [SetGlobalQuota numReceived sizeReceived numProcessed sizeProcessed])
               (statusHandlers qfp)\<rparr>"

text \<open>The loop of \<open>createStatistics\<close> over the snapshot of keys.\<close>

fun createStatistics_keys :: "quotaFloodPreventer \<Rightarrow> string list \<Rightarrow> quotaFloodPreventer" where
  "createStatistics_keys qfp [] = qfp"
| "createStatistics_keys qfp (k # ks) =
     (case cacher_Get (cacher qfp) k of
        (None, c) \<Rightarrow> createStatistics_keys (qfp\<lparr>cacher := c\<rparr>) ks
      | (Some OtherValue, c) \<Rightarrow> createStatistics_keys (qfp\<lparr>cacher := c\<rparr>) ks
      | (Some (QuotaPtr a), c) \<Rightarrow>
          createStatistics_keys
            (addQuota (qfp\<lparr>cacher := c\<rparr>) k
               (numReceivedMessages (quotas qfp ! a)) (sizeReceivedMessages (quotas qfp ! a))
               (numProcessedMessages (quotas qfp ! a)) (sizeProcessedMessages (quotas qfp ! a)))
            ks)"

definition createStatistics :: "quotaFloodPreventer \<Rightarrow> quotaFloodPreventer" where
  "createStatistics qfp =
     (let qfp1 = createStatistics_keys qfp (cacher_Keys (cacher qfp))
      in setGlobalQuota qfp1
           (numReceivedMessages (globalQuota qfp1)) (sizeReceivedMessages (globalQuota qfp1))
           (numProcessedMessages (globalQuota qfp1)) (sizeProcessedMessages (globalQuota qfp1)))"

definition Reset :: "quotaFloodPreventer \<Rightarrow> quotaFloodPreventer" where
  "Reset qfp =
     (let qfp1 = createStatistics (resetStatusHandlers qfp)
      in qfp1\<lparr>cacher := cacher_Clear (cacher qfp1), globalQuota := emptyQuota\<rparr>)"

subsection \<open>Sequences of calls\<close>

datatype operation =
    OpAccumulate string uint64
  | OpAccumulateGlobal string uint64
  | OpReset

text \<open>One call and its return value (\<open>Reset\<close> returns nothing).\<close>

fun step :: "quotaFloodPreventer \<Rightarrow> operation \<Rightarrow> bool option \<times> quotaFloodPreventer" where
  "step qfp (OpAccumulate identifier sz) =
     (case Accumulate qfp identifier sz of (b, qfp1) \<Rightarrow> (Some b, qfp1))"
| "step qfp (OpAccumulateGlobal identifier sz) =
     (case AccumulateGlobal qfp identifier sz of (b, qfp1) \<Rightarrow> (Some b, qfp1))"
| "step qfp OpReset = (None, Reset qfp)"

fun run :: "quotaFloodPreventer \<Rightarrow> operation list \<Rightarrow> bool option list \<times> quotaFloodPreventer" where
  "run qfp [] = ([], qfp)"
| "run qfp (x # xs) =
     (case step qfp x of (r, qfp1) \<Rightarrow>
        (case run qfp1 xs of (rs, qfp2) \<Rightarrow> (r # rs, qfp2)))"

subsection \<open>Predicates on the state of the flood preventer\<close>

text \<open>
  The cache has unique keys and respects its bound, and every \<open>*quota\<close> it holds is a
  live object of the store (Go has no dangling pointers; the flood preventer never
  stores a nil \<open>*quota\<close>).
\<close>

definition wellFormed :: "quotaFloodPreventer \<Rightarrow> bool" where
  "wellFormed qfp \<longleftrightarrow>
     distinct (map fst (items (cacher qfp))) \<and>
     length (items (cacher qfp)) \<le> maxEntries (cacher qfp) \<and>
     list_all (\<lambda>e. case snd e of QuotaPtr a \<Rightarrow> a < length (quotas qfp) | OtherValue \<Rightarrow> True)
       (items (cacher qfp))"

text \<open>The invariant of the data model: received counters are not below processed counters.\<close>

definition receivedCoversProcessed :: "quota \<Rightarrow> bool" where
  "receivedCoversProcessed q \<longleftrightarrow>
     numProcessedMessages q \<le> numReceivedMessages q \<and>
     sizeProcessedMessages q \<le> sizeReceivedMessages q"

definition quotaInvariant :: "quotaFloodPreventer \<Rightarrow> bool" where
  "quotaInvariant qfp \<longleftrightarrow>
     list_all (\<lambda>e. case snd e of QuotaPtr a \<Rightarrow> receivedCoversProcessed (quotas qfp ! a)
                                | OtherValue \<Rightarrow> True)
       (items (cacher qfp))"

text \<open>Charging one message of \<open>sz\<close> bytes does not wrap the received counters of \<open>q\<close>.\<close>

definition receivedFits :: "quota \<Rightarrow> uint64 \<Rightarrow> bool" where
  "receivedFits q sz \<longleftrightarrow>
     unat (numReceivedMessages q) + 1 < 2 ^ 32 \<and>
     unat (sizeReceivedMessages q) + unat sz < 2 ^ 64"

definition peerFits :: "quotaFloodPreventer \<Rightarrow> string \<Rightarrow> uint64 \<Rightarrow> bool" where
  "peerFits qfp identifier sz =
     (case map_of (items (cacher qfp)) identifier of
        Some (QuotaPtr a) \<Rightarrow> receivedFits (quotas qfp ! a) sz
      | _ \<Rightarrow> True)"

text \<open>No received counter touched by the call wraps around.\<close>

fun noOverflow :: "quotaFloodPreventer \<Rightarrow> operation \<Rightarrow> bool" where
  "noOverflow qfp (OpAccumulate identifier sz) = peerFits qfp identifier sz"
| "noOverflow qfp (OpAccumulateGlobal identifier sz) =
     (peerFits qfp identifier sz \<and> receivedFits (globalQuota qfp) sz)"
| "noOverflow qfp OpReset = True"

text \<open>The peer's budget, or the global one, is exceeded in this state.\<close>

definition overBudget :: "quotaFloodPreventer \<Rightarrow> string \<Rightarrow> bool" where
  "overBudget qfp identifier \<longleftrightarrow>
     isGlobalQuotaReached qfp \<or>
     (case map_of (items (cacher qfp)) identifier of
        Some (QuotaPtr a) \<Rightarrow> isPeerQuotaReached qfp (quotas qfp ! a)
      | _ \<Rightarrow> False)"

text \<open>The cache entry of the peer, if it is a quota, is the same object afterwards.\<close>

definition keepsEntry :: "quotaFloodPreventer \<Rightarrow> string \<Rightarrow> quotaFloodPreventer \<Rightarrow> bool" where
  "keepsEntry qfp identifier qfp1 =
     (case map_of (items (cacher qfp)) identifier of
        Some (QuotaPtr a) \<Rightarrow> map_of (items (cacher qfp1)) identifier = Some (QuotaPtr a)
      | _ \<Rightarrow> True)"

text \<open>
  Along the calls \<open>ops\<close> there is no \<open>Reset\<close>, the peer's record is never evicted from
  the cache, and no received counter wraps around.
\<close>

fun undisturbed :: "quotaFloodPreventer \<Rightarrow> string \<Rightarrow> operation list \<Rightarrow> bool" where
  "undisturbed qfp identifier [] = True"
| "undisturbed qfp identifier (x # xs) =
     (x \<noteq> OpReset \<and> noOverflow qfp x \<and>
      keepsEntry qfp identifier (snd (step qfp x)) \<and>
      undisturbed (snd (step qfp x)) identifier xs)"

section \<open>Transaction pools cleaner (package poolsCleaner)\<close>

subsection \<open>Data\<close>

definition blockTx :: int8 where "blockTx = 0"
definition rewardTx :: int8 where "rewardTx = 1"
definition unsignedTx :: int8 where "unsignedTx = 2"

text \<open>
  \<open>txStore\<close> is a \<open>storage.Cacher\<close> shared with the pool: the handle of a sub-cache in
  the state of the pools below.
\<close>

record txInfo =
  round :: int64
  senderShardID :: uint32
  receiverShardID :: uint32
  txType :: int8
  txStore :: nat

text \<open>What the cleaner reads from a \<open>data.TransactionHandler\<close>.\<close>

record transaction =
  GetSndAddr :: "byte list"
  GetRcvAddr :: "byte list"

text \<open>The dynamic types of the values the pools hand to the callbacks.\<close>

datatype poolValue =
    WrappedTransaction transaction uint32 uint32
  | TransactionHandler transaction
  | OtherPoolValue

text \<open>What the cleaner uses of \<open>sharding.Coordinator\<close>.\<close>

record coordinator =
  SelfId :: uint32
  ComputeId :: "byte list \<Rightarrow> uint32"

text \<open>
  A sharded pool is used through \<open>ShardDataStore\<close>, from cache identifier to sub-cache
  (\<open>None\<close> is nil). \<open>rounder\<close> is the value \<open>Index()\<close> returns; the clock is external and
  one pass of the cleaner is taken to happen within one round.
  \<open>addressPubkeyConverter\<close> is used through \<open>Len()\<close> only.
\<close>

record txsPoolsCleaner =
  addressPubkeyConverter :: nat
  blockTransactionsPool :: "string \<Rightarrow> nat option"
  rewardTransactionsPool :: "string \<Rightarrow> nat option"
  unsignedTransactionsPool :: "string \<Rightarrow> nat option"
  rounder :: int64
  shardCoordinator :: coordinator
  mapTxsRounds :: "(string \<times> txInfo) list"
  emptyAddress :: "byte list"

text \<open>
  Modelled from the spec: the sub-caches of the sharded pools (\<open>storage.Cacher\<close>, not
  part of the sources at hand), of which section 6 says that a cache exposes
  \<open>Get(key) \<rightarrow> (value, present)\<close> and \<open>Remove(key)\<close>. The state of the pools is the
  content of each sub-cache, by handle, and the log of the \<open>Remove\<close> calls received.
\<close>

record poolsState =
  caches :: "nat \<Rightarrow> string \<Rightarrow> poolValue option"
  removeCalls :: "(nat \<times> string) list"

definition txStore_Get :: "poolsState \<Rightarrow> nat \<Rightarrow> string \<Rightarrow> poolValue option" where
  "txStore_Get pools h k = caches pools h k"

definition txStore_Remove :: "poolsState \<Rightarrow> nat \<Rightarrow> string \<Rightarrow> poolsState" where
  "txStore_Remove pools h k =
     pools\<lparr>caches := (caches pools)(h := (caches pools h)(k := None)),
           removeCalls := removeCalls pools @ [(h, k)]\<rparr>"

subsection \<open>Construction\<close>

text \<open>
  \<open>NewTxsPoolsCleaner\<close>: nil arguments are \<open>None\<close>; the data pool is given by its three
  sharded pools. Registering the callbacks and starting the background task are not
  part of the value returned.
\<close>

definition NewTxsPoolsCleaner ::
  "nat option \<Rightarrow>
   ((string \<Rightarrow> nat option) option \<times> (string \<Rightarrow> nat option) option \<times> (string \<Rightarrow> nat option) option) option \<Rightarrow>
   int64 option \<Rightarrow> coordinator option \<Rightarrow> error + txsPoolsCleaner" where
  "NewTxsPoolsCleaner converter dataPool rounderArg coordinatorArg =
     (case converter of None \<Rightarrow> Inl ErrNilPubkeyConverter | Some conv \<Rightarrow>
      case dataPool of None \<Rightarrow> Inl ErrNilPoolsHolder | Some (txs, rewards, unsignedTxs) \<Rightarrow>
      case txs of None \<Rightarrow> Inl ErrNilTransactionPool | Some blockPool \<Rightarrow>
      case rewards of None \<Rightarrow> Inl ErrNilRewardTxDataPool | Some rewardPool \<Rightarrow>
      case unsignedTxs of None \<Rightarrow> Inl ErrNilUnsignedTxDataPool | Some unsignedPool \<Rightarrow>
      case rounderArg of None \<Rightarrow> Inl ErrNilRounder | Some r \<Rightarrow>
      case coordinatorArg of None \<Rightarrow> Inl ErrNilShardCoordinator | Some coord \<Rightarrow>
        Inr \<lparr>addressPubkeyConverter = conv,
             blockTransactionsPool = blockPool,
             rewardTransactionsPool = rewardPool,
             unsignedTransactionsPool = unsignedPool,
             rounder = r,
             shardCoordinator = coord,
             mapTxsRounds = [],
             emptyAddress = replicate conv 0\<rparr>)"

subsection \<open>Callbacks\<close>

definition getTransactionPool :: "txsPoolsCleaner \<Rightarrow> int8 \<Rightarrow> (string \<Rightarrow> nat option) option" where
  "getTransactionPool tpc ty =
     (if ty = blockTx then Some (blockTransactionsPool tpc)
      else if ty = rewardTx then Some (rewardTransactionsPool tpc)
      else if ty = unsignedTx then Some (unsignedTransactionsPool tpc)
      else None)"

text \<open>
  \<open>process.ShardCacherIdentifier\<close> is not part of the sources at hand: it is the
  parameter \<open>shardCacherIdentifier\<close>.
\<close>

definition processReceivedTx ::
  "(uint32 \<Rightarrow> uint32 \<Rightarrow> string) \<Rightarrow> txsPoolsCleaner \<Rightarrow> string \<Rightarrow> uint32 \<Rightarrow> uint32 \<Rightarrow> int8
     \<Rightarrow> txsPoolsCleaner" where
  "processReceivedTx shardCacherIdentifier tpc key sender receiver ty =
     (case map_of (mapTxsRounds tpc) key of
        Some _ \<Rightarrow> tpc
      | None \<Rightarrow>
          (case getTransactionPool tpc ty of
             None \<Rightarrow> tpc
           | Some transactionPool \<Rightarrow>
               (case transactionPool (shardCacherIdentifier sender receiver) of
                  None \<Rightarrow> tpc
                | Some store \<Rightarrow>
                    tpc\<lparr>mapTxsRounds := mapTxsRounds tpc @
                          [(key, \<lparr>round = rounder tpc, senderShardID = sender,
                                  receiverShardID = receiver, txType = ty,
                                  txStore = store\<rparr>)]\<rparr>)))"

definition getShardFromAddress :: "txsPoolsCleaner \<Rightarrow> byte list \<Rightarrow> error + uint32" where
  "getShardFromAddress tpc address =
     (if address = emptyAddress tpc then Inr (SelfId (shardCoordinator tpc))
      else Inr (ComputeId (shardCoordinator tpc) address))"

definition computeSenderAndReceiverShards ::
  "txsPoolsCleaner \<Rightarrow> transaction \<Rightarrow> error + (uint32 \<times> uint32)" where
  "computeSenderAndReceiverShards tpc tx =
     (case getShardFromAddress tpc (GetSndAddr tx) of
        Inl err \<Rightarrow> Inl err
      | Inr senderShard \<Rightarrow>
          (case getShardFromAddress tpc (GetRcvAddr tx) of
             Inl err \<Rightarrow> Inl err
           | Inr receiverShard \<Rightarrow> Inr (senderShard, receiverShard)))"

definition receivedBlockTx ::
  "(uint32 \<Rightarrow> uint32 \<Rightarrow> string) \<Rightarrow> txsPoolsCleaner \<Rightarrow> string option \<Rightarrow> poolValue \<Rightarrow> txsPoolsCleaner" where
  "receivedBlockTx shardCacherIdentifier tpc key v =
     (case key of
        None \<Rightarrow> tpc
      | Some k \<Rightarrow>
          (case v of
             WrappedTransaction tx sender receiver \<Rightarrow>
               processReceivedTx shardCacherIdentifier tpc k sender receiver blockTx
           | _ \<Rightarrow> tpc))"

text \<open>\<open>core.MetachainShardId\<close> is the parameter \<open>metachainShardId\<close>.\<close>

definition receivedRewardTx ::
  "(uint32 \<Rightarrow> uint32 \<Rightarrow> string) \<Rightarrow> uint32 \<Rightarrow> txsPoolsCleaner \<Rightarrow> string option \<Rightarrow> poolValue
     \<Rightarrow> txsPoolsCleaner" where
  "receivedRewardTx shardCacherIdentifier metachainShardId tpc key v =
     (case key of
        None \<Rightarrow> tpc
      | Some k \<Rightarrow>
          processReceivedTx shardCacherIdentifier tpc k metachainShardId
            (SelfId (shardCoordinator tpc)) rewardTx)"

definition receivedUnsignedTx ::
  "(uint32 \<Rightarrow> uint32 \<Rightarrow> string) \<Rightarrow> txsPoolsCleaner \<Rightarrow> string option \<Rightarrow> poolValue \<Rightarrow> txsPoolsCleaner" where
  "receivedUnsignedTx shardCacherIdentifier tpc key v =
     (case key of
        None \<Rightarrow> tpc
      | Some k \<Rightarrow>
          (case v of
             TransactionHandler tx \<Rightarrow>
               (case computeSenderAndReceiverShards tpc tx of
                  Inl err \<Rightarrow> tpc
                | Inr (sender, receiver) \<Rightarrow>
                    processReceivedTx shardCacherIdentifier tpc k sender receiver unsignedTx)
           | _ \<Rightarrow> tpc))"

subsection \<open>The reaper pass\<close>

text \<open>
  The loop of \<open>cleanTxsPoolsIfNeeded\<close> over the records of the map, in any order (the
  list given), carrying the map, the pools and \<open>numTxsCleaned\<close>. \<open>roundDif\<close> is an int64
  difference and the comparison is signed.
  \<open>process.MaxRoundsToKeepUnprocessedTransactions\<close> is not part of the sources at hand:
  it is the parameter \<open>maxRounds\<close>.
\<close>

fun cleanTxs ::
  "int64 \<Rightarrow> int64 \<Rightarrow> (string \<times> txInfo) list \<Rightarrow>
   (string \<times> txInfo) list \<times> poolsState \<times> nat \<Rightarrow>
   (string \<times> txInfo) list \<times> poolsState \<times> nat" where
  "cleanTxs maxRounds index [] acc = acc"
| "cleanTxs maxRounds index ((hash, currTxInfo) # rest) (m, pools, numTxsCleaned) =
     (case txStore_Get pools (txStore currTxInfo) hash of
        None \<Rightarrow>
          cleanTxs maxRounds index rest
            (filter (\<lambda>e. fst e \<noteq> hash) m, pools, numTxsCleaned)
      | Some _ \<Rightarrow>
          if index - round currTxInfo \<le>s maxRounds
          then cleanTxs maxRounds index rest (m, pools, numTxsCleaned)
          else cleanTxs maxRounds index rest
                 (filter (\<lambda>e. fst e \<noteq> hash) m,
                  txStore_Remove pools (txStore currTxInfo) hash,
                  numTxsCleaned + 1))"

text \<open>
  \<open>cleanTxsPoolsIfNeeded\<close> returns the size of the map; the model also returns the
  cleaner and the pools after the pass, and \<open>numTxsCleaned\<close>, which the source logs.
\<close>

definition cleanTxsPoolsIfNeeded ::
  "int64 \<Rightarrow> txsPoolsCleaner \<Rightarrow> poolsState \<Rightarrow> nat \<times> txsPoolsCleaner \<times> poolsState \<times> nat" where
  "cleanTxsPoolsIfNeeded maxRounds tpc pools =
     (case cleanTxs maxRounds (rounder tpc) (mapTxsRounds tpc) (mapTxsRounds tpc, pools, 0) of
        (m, pools1, numTxsCleaned) \<Rightarrow>
          (length m, tpc\<lparr>mapTxsRounds := m\<rparr>, pools1, numTxsCleaned))"

text \<open>The record of a hash is stale: the test of the source, negated.\<close>

definition expired :: "int64 \<Rightarrow> int64 \<Rightarrow> txInfo \<Rightarrow> bool" where
  "expired maxRounds index info \<longleftrightarrow> maxRounds <s index - round info"

section \<open>Shard interceptors container factory (package interceptorscontainer)\<close>

text \<open>
  A collaborator is an interface value: nil, or some object. \<open>check.IfNil\<close> tests it.
\<close>

datatype handle = NilHandle | Handle nat

definition IfNil :: "handle \<Rightarrow> bool" where
  "IfNil h \<longleftrightarrow> h = NilHandle"

record ShardInterceptorsContainerFactoryArgs =
  Accounts :: handle
  ShardCoordinator :: handle
  NodesCoordinator :: handle
  Messenger :: handle
  Store :: handle
  Marshalizer :: handle
  Hasher :: handle
  KeyGen :: handle
  BlockSignKeyGen :: handle
  SingleSigner :: handle
  BlockSingleSigner :: handle
  MultiSigner :: handle
  DataPool :: handle
  AddrConverter :: handle
  MaxTxNonceDeltaAllowed :: int
  TxFeeHandler :: handle
  BlackList :: handle
  HeaderSigVerifier :: handle
  ChainID :: "byte list"
  SizeCheckDelta :: uint32
  ValidityAttester :: handle
  EpochStartTrigger :: handle
  AntifloodHandler :: handle

text \<open>\<open>interceptorFactory.ArgInterceptedDataFactory\<close>; the fields carry the prefix \<open>aidf\<close>.\<close>

record ArgInterceptedDataFactory =
  aidf_Marshalizer :: handle
  aidf_Hasher :: handle
  aidf_ShardCoordinator :: handle
  aidf_MultiSigVerifier :: handle
  aidf_NodesCoordinator :: handle
  aidf_KeyGen :: handle
  aidf_BlockKeyGen :: handle
  aidf_Signer :: handle
  aidf_BlockSigner :: handle
  aidf_AddrConv :: handle
  aidf_FeeHandler :: handle
  aidf_HeaderSigVerifier :: handle
  aidf_ChainID :: "byte list"
  aidf_ValidityAttester :: handle
  aidf_EpochStartTrigger :: handle

text \<open>\<open>baseInterceptorsContainerFactory\<close>; the fields carry the prefix \<open>base\<close>.\<close>

record baseInterceptorsContainerFactory =
  base_container :: "(string \<times> handle) list"
  base_accounts :: handle
  base_shardCoordinator :: handle
  base_messenger :: handle
  base_store :: handle
  base_marshalizer :: handle
  base_hasher :: handle
  base_multiSigner :: handle
  base_dataPool :: handle
  base_nodesCoordinator :: handle
  base_argInterceptorFactory :: ArgInterceptedDataFactory
  base_blackList :: handle
  base_maxTxNonceDeltaAllowed :: int
  base_antifloodHandler :: handle
  base_globalThrottler :: handle

record shardInterceptorsContainerFactory =
  baseFactory :: baseInterceptorsContainerFactory
  keyGen :: handle
  singleSigner :: handle
  addrConverter :: handle

text \<open>
  Modelled from the spec: \<open>checkBaseParams\<close>, which is not part of the sources at hand.
  Section 4.E says that every handle in the argument struct is checked for nil before
  use and that any nil handle gives the specific error of its role
  (\<open>ErrNilShardCoordinator\<close>, \<open>ErrNilMarshalizer\<close>, etc.). The handles are checked in the
  order of the arguments of the call; the names of the errors that the spec does not
  spell out follow its pattern. The result \<open>None\<close> is a nil error.
\<close>

definition checkBaseParams ::
  "handle \<Rightarrow> handle \<Rightarrow> handle \<Rightarrow> handle \<Rightarrow> handle \<Rightarrow> handle \<Rightarrow> handle \<Rightarrow> handle \<Rightarrow> handle
     \<Rightarrow> handle \<Rightarrow> handle \<Rightarrow> error option" where
  "checkBaseParams coordinatorArg accounts marshalizer hasher store dataPool messenger
       multiSigner nodesCoordinator blackList antifloodHandler =
     (if IfNil coordinatorArg then Some ErrNilShardCoordinator
      else if IfNil accounts then Some ErrNilAccountsAdapter
      else if IfNil marshalizer then Some ErrNilMarshalizer
      else if IfNil hasher then Some ErrNilHasher
      else if IfNil store then Some ErrNilStore
      else if IfNil dataPool then Some ErrNilDataPoolHolder
      else if IfNil messenger then Some ErrNilMessenger
      else if IfNil multiSigner then Some ErrNilMultiSigVerifier
      else if IfNil nodesCoordinator then Some ErrNilNodesCoordinator
      else if IfNil blackList then Some ErrNilBlackListHandler
      else if IfNil antifloodHandler then Some ErrNilAntifloodHandler
      else None)"

text \<open>
  \<open>NewShardInterceptorsContainerFactory\<close>. Two functions it calls are not part of the
  sources at hand and are parameters: \<open>marshal.NewSizeCheckUnmarshalizer\<close> and the
  result of \<open>throttler.NewNumGoRoutineThrottler(numGoRoutines)\<close>. The first two
  statements of the function are \<open>applySizeCheck\<close> and \<open>callCheckBaseParams\<close>.
\<close>

definition applySizeCheck ::
  "(handle \<Rightarrow> uint32 \<Rightarrow> handle) \<Rightarrow> ShardInterceptorsContainerFactoryArgs
     \<Rightarrow> ShardInterceptorsContainerFactoryArgs" where
  "applySizeCheck newSizeCheckUnmarshalizer args =
     (if SizeCheckDelta args > 0
      then args\<lparr>Marshalizer :=
                  newSizeCheckUnmarshalizer (Marshalizer args) (SizeCheckDelta args)\<rparr>
      else args)"

definition callCheckBaseParams :: "ShardInterceptorsContainerFactoryArgs \<Rightarrow> error option" where
  "callCheckBaseParams args =
     checkBaseParams (ShardCoordinator args) (Accounts args) (Marshalizer args)
       (Hasher args) (Store args) (DataPool args) (Messenger args) (MultiSigner args)
       (NodesCoordinator args) (BlackList args) (AntifloodHandler args)"

definition NewShardInterceptorsContainerFactory ::
  "(handle \<Rightarrow> uint32 \<Rightarrow> handle) \<Rightarrow> error + handle \<Rightarrow>
   ShardInterceptorsContainerFactoryArgs \<Rightarrow> error + shardInterceptorsContainerFactory" where
  "NewShardInterceptorsContainerFactory newSizeCheckUnmarshalizer
       newNumGoRoutineThrottler args0 =
     (let args = applySizeCheck newSizeCheckUnmarshalizer args0
      in
        case callCheckBaseParams args of
          Some err \<Rightarrow> Inl err
        | None \<Rightarrow>
            if IfNil (KeyGen args) then Inl ErrNilKeyGen
            else if IfNil (SingleSigner args) then Inl ErrNilSingleSigner
            else if IfNil (AddrConverter args) then Inl ErrNilAddressConverter
            else if IfNil (TxFeeHandler args) then Inl ErrNilEconomicsFeeHandler
            else if IfNil (BlockSignKeyGen args) then Inl ErrNilKeyGen
            else if IfNil (BlockSingleSigner args) then Inl ErrNilSingleSigner
            else if IfNil (HeaderSigVerifier args) then Inl ErrNilHeaderSigVerifier
            else if length (ChainID args) = 0 then Inl ErrInvalidChainID
            else if IfNil (ValidityAttester args) then Inl ErrNilValidityAttester
            else if IfNil (EpochStartTrigger args) then Inl ErrNilEpochStartTrigger
            else
              (case newNumGoRoutineThrottler of
                 Inl err \<Rightarrow> Inl err
               | Inr globalThrottler \<Rightarrow>
                   Inr \<lparr>baseFactory =
                          \<lparr>base_container = [],
                           base_accounts = Accounts args,
                           base_shardCoordinator = ShardCoordinator args,
                           base_messenger = Messenger args,
                           base_store = Store args,
                           base_marshalizer = Marshalizer args,
                           base_hasher = Hasher args,
                           base_multiSigner = MultiSigner args,
                           base_dataPool = DataPool args,
                           base_nodesCoordinator = NodesCoordinator args,
                           base_argInterceptorFactory =
                             \<lparr>aidf_Marshalizer = Marshalizer args,
                              aidf_Hasher = Hasher args,
                              aidf_ShardCoordinator = ShardCoordinator args,
                              aidf_MultiSigVerifier = MultiSigner args,
                              aidf_NodesCoordinator = NodesCoordinator args,
                              aidf_KeyGen = KeyGen args,
                              aidf_BlockKeyGen = BlockSignKeyGen args,
                              aidf_Signer = SingleSigner args,
                              aidf_BlockSigner = BlockSingleSigner args,
                              aidf_AddrConv = AddrConverter args,
                              aidf_FeeHandler = TxFeeHandler args,
                              aidf_HeaderSigVerifier = HeaderSigVerifier args,
                              aidf_ChainID = ChainID args,
                              aidf_ValidityAttester = ValidityAttester args,
                              aidf_EpochStartTrigger = EpochStartTrigger args\<rparr>,
                           base_blackList = BlackList args,
                           base_maxTxNonceDeltaAllowed = MaxTxNonceDeltaAllowed args,
                           base_antifloodHandler = AntifloodHandler args,
                           base_globalThrottler = globalThrottler\<rparr>,
                        keyGen = KeyGen args,
                        singleSigner = SingleSigner args,
                        addrConverter = AddrConverter args\<rparr>))"

subsection \<open>The checks of the constructor, as a table\<close>

text \<open>
  The nil checks that the constructor makes, in their order, each collaborator with the
  named error of its role: the eleven of \<open>checkBaseParams\<close>, then those of the function
  itself. The check of \<open>ChainID\<close> is not a nil check and is kept apart.
\<close>

definition collaboratorErrors ::
  "ShardInterceptorsContainerFactoryArgs \<Rightarrow> (handle \<times> error) list" where
  "collaboratorErrors args =
     [(ShardCoordinator args, ErrNilShardCoordinator),
      (Accounts args, ErrNilAccountsAdapter),
      (Marshalizer args, ErrNilMarshalizer),
      (Hasher args, ErrNilHasher),
      (Store args, ErrNilStore),
      (DataPool args, ErrNilDataPoolHolder),
      (Messenger args, ErrNilMessenger),
      (MultiSigner args, ErrNilMultiSigVerifier),
      (NodesCoordinator args, ErrNilNodesCoordinator),
      (BlackList args, ErrNilBlackListHandler),
      (AntifloodHandler args, ErrNilAntifloodHandler),
      (KeyGen args, ErrNilKeyGen),
      (SingleSigner args, ErrNilSingleSigner),
      (AddrConverter args, ErrNilAddressConverter),
      (TxFeeHandler args, ErrNilEconomicsFeeHandler),
      (BlockSignKeyGen args, ErrNilKeyGen),
      (BlockSingleSigner args, ErrNilSingleSigner),
      (HeaderSigVerifier args, ErrNilHeaderSigVerifier),
      (ValidityAttester args, ErrNilValidityAttester),
      (EpochStartTrigger args, ErrNilEpochStartTrigger)]"

text \<open>
  The errors of the checks that fail on the arguments: one for every nil collaborator,
  and \<open>ErrInvalidChainID\<close> for an empty \<open>ChainID\<close>.
\<close>

definition failedChecks :: "ShardInterceptorsContainerFactoryArgs \<Rightarrow> error list" where
  "failedChecks args =
     map snd (filter (\<lambda>c. IfNil (fst c)) (collaboratorErrors args)) @
     (if ChainID args = [] then [ErrInvalidChainID] else [])"

text \<open>The error of the first nil collaborator of a list of checks.\<close>

fun firstNil :: "(handle \<times> error) list \<Rightarrow> error option" where
  "firstNil [] = None"
| "firstNil (c # cs) = (if IfNil (fst c) then Some (snd c) else firstNil cs)"

section \<open>Example instances\<close>

text \<open>
  A flood preventer with at most 2 messages and 100 bytes per peer, 10 messages and
  1000 bytes globally, as constructed and after \<open>Accumulate("P", 40)\<close> twice.
\<close>

definition scenarioFresh :: quotaFloodPreventer where
  "scenarioFresh =
     \<lparr>cacher = newCacher 8, quotas = [], statusHandlers = [[]],
      maxMessagesPerPeer = 2, maxSizePerPeer = 100, maxMessages = 10, maxSize = 1000,
      globalQuota = emptyQuota\<rparr>"

definition scenarioTwoCalls :: quotaFloodPreventer where
  "scenarioTwoCalls =
     \<lparr>cacher = \<lparr>items = [(''P'', QuotaPtr 0)], maxEntries = 8\<rparr>,
      quotas = [\<lparr>numReceivedMessages = 2, sizeReceivedMessages = 80,
                 numProcessedMessages = 2, sizeProcessedMessages = 80\<rparr>],
      statusHandlers = [[]],
      maxMessagesPerPeer = 2, maxSizePerPeer = 100, maxMessages = 10, maxSize = 1000,
      globalQuota = emptyQuota\<rparr>"

text \<open>
  A flood preventer with at most 10 messages and 10 bytes per peer, as constructed and
  after \<open>Accumulate("P", 5)\<close> and \<open>Accumulate("P", 6)\<close>; and the first example after a
  third \<open>Accumulate("P", 40)\<close>.
\<close>

definition scenarioTen :: quotaFloodPreventer where
  "scenarioTen =
     \<lparr>cacher = newCacher 8, quotas = [], statusHandlers = [[]],
      maxMessagesPerPeer = 10, maxSizePerPeer = 10, maxMessages = 10, maxSize = 1000,
      globalQuota = emptyQuota\<rparr>"

definition scenarioTenRejected :: quotaFloodPreventer where
  "scenarioTenRejected =
     \<lparr>cacher = \<lparr>items = [(''P'', QuotaPtr 0)], maxEntries = 8\<rparr>,
      quotas = [\<lparr>numReceivedMessages = 2, sizeReceivedMessages = 11,
                 numProcessedMessages = 1, sizeProcessedMessages = 5\<rparr>],
      statusHandlers = [[]],
      maxMessagesPerPeer = 10, maxSizePerPeer = 10, maxMessages = 10, maxSize = 1000,
      globalQuota = emptyQuota\<rparr>"

definition scenarioRejected :: quotaFloodPreventer where
  "scenarioRejected =
     \<lparr>cacher = \<lparr>items = [(''P'', QuotaPtr 0)], maxEntries = 8\<rparr>,
      quotas = [\<lparr>numReceivedMessages = 3, sizeReceivedMessages = 120,
                 numProcessedMessages = 2, sizeProcessedMessages = 80\<rparr>],
      statusHandlers = [[]],
      maxMessagesPerPeer = 2, maxSizePerPeer = 100, maxMessages = 10, maxSize = 1000,
      globalQuota = emptyQuota\<rparr>"

text \<open>The second example after a first call \<open>Accumulate("P", 11)\<close>, above the 10 bytes.\<close>

definition scenarioOversized :: quotaFloodPreventer where
  "scenarioOversized =
     \<lparr>cacher = \<lparr>items = [(''P'', QuotaPtr 0)], maxEntries = 8\<rparr>,
      quotas = [\<lparr>numReceivedMessages = 1, sizeReceivedMessages = 11,
                 numProcessedMessages = 1, sizeProcessedMessages = 11\<rparr>],
      statusHandlers = [[]],
      maxMessagesPerPeer = 10, maxSizePerPeer = 10, maxMessages = 10, maxSize = 1000,
      globalQuota = emptyQuota\<rparr>"

text \<open>A flood preventer over a cache of one entry, with at most 1 message per peer.\<close>

definition scenarioSmallCache :: quotaFloodPreventer where
  "scenarioSmallCache =
     \<lparr>cacher = newCacher 1, quotas = [], statusHandlers = [[]],
      maxMessagesPerPeer = 1, maxSizePerPeer = 100, maxMessages = 10, maxSize = 1000,
      globalQuota = emptyQuota\<rparr>"

text \<open>
  A pools cleaner of shard 0 at a given round with given records, with one sub-cache of
  block transactions (handle 0) and one of unsigned transactions (handle 1); the record
  of a hash that arrived at round 100; and pools whose sub-cache 0 has a given content.
\<close>

definition scenarioInfo :: txInfo where
  "scenarioInfo =
     \<lparr>round = 100, senderShardID = 0, receiverShardID = 0, txType = blockTx, txStore = 0\<rparr>"

definition scenarioCleaner :: "int64 \<Rightarrow> (string \<times> txInfo) list \<Rightarrow> txsPoolsCleaner" where
  "scenarioCleaner index pending =
     \<lparr>addressPubkeyConverter = 4,
      blockTransactionsPool = (\<lambda>cacheId. if cacheId = ''0'' then Some 0 else None),
      rewardTransactionsPool = (\<lambda>cacheId. None),
      unsignedTransactionsPool = (\<lambda>cacheId. if cacheId = ''0'' then Some 1 else None),
      rounder = index,
      shardCoordinator = \<lparr>SelfId = 0, ComputeId = (\<lambda>address. 1)\<rparr>,
      mapTxsRounds = pending,
      emptyAddress = [0, 0, 0, 0]\<rparr>"

definition scenarioPools :: "(string \<Rightarrow> poolValue option) \<Rightarrow> poolsState" where
  "scenarioPools blockTxs =
     \<lparr>caches = (\<lambda>h. if h = 0 then blockTxs else Map.empty), removeCalls = []\<rparr>"

text \<open>
  Arguments of the factory with every collaborator present, but for a given \<open>KeyGen\<close>, a
  given \<open>BlockSignKeyGen\<close> and a given \<open>Marshalizer\<close> with a given \<open>SizeCheckDelta\<close>; and
  a size-check wrapper that returns an object whatever it wraps.
\<close>

definition scenarioArgs ::
  "handle \<Rightarrow> handle \<Rightarrow> handle \<Rightarrow> uint32 \<Rightarrow> ShardInterceptorsContainerFactoryArgs" where
  "scenarioArgs keyGenArg blockSignKeyGenArg marshalizerArg delta =
     \<lparr>Accounts = Handle 1, ShardCoordinator = Handle 2, NodesCoordinator = Handle 3,
      Messenger = Handle 4, Store = Handle 5, Marshalizer = marshalizerArg, Hasher = Handle 7,
      KeyGen = keyGenArg, BlockSignKeyGen = blockSignKeyGenArg, SingleSigner = Handle 10,
      BlockSingleSigner = Handle 11, MultiSigner = Handle 12, DataPool = Handle 13,
      AddrConverter = Handle 14, MaxTxNonceDeltaAllowed = 100, TxFeeHandler = Handle 15,
      BlackList = Handle 16, HeaderSigVerifier = Handle 17, ChainID = [1],
      SizeCheckDelta = delta, ValidityAttester = Handle 18, EpochStartTrigger = Handle 19,
      AntifloodHandler = Handle 20\<rparr>"

definition scenarioWrapper :: "handle \<Rightarrow> uint32 \<Rightarrow> handle" where
  "scenarioWrapper marshalizerArg delta = Handle 99"

section \<open>Properties of the quota flood preventer\<close>

subsection \<open>The cache\<close>

lemma map_of_filter_other:
  "k' \<noteq> k \<Longrightarrow> map_of (filter (\<lambda>e. fst e \<noteq> k) xs) k' = map_of xs k'"
  by (induction xs) auto

lemma map_of_filter_same:
  "map_of (filter (\<lambda>e. fst e \<noteq> k) xs) k = None"
  by (induction xs) auto

lemma length_filter_present:
  "map_of xs k = Some v \<Longrightarrow> Suc (length (filter (\<lambda>e. fst e \<noteq> k) xs)) \<le> length xs"
  by (induction xs) (auto split: if_splits simp: le_SucI)

lemma distinct_keys_filter:
  "distinct (map fst xs) \<Longrightarrow> distinct (map fst (filter P xs))"
  by (induction xs) auto

lemma cacher_Get_map_of: "map_of (items (snd (cacher_Get c k))) = map_of (items c)"
  by (auto simp add: cacher_Get_def fun_eq_iff map_of_filter_other split: option.splits)

lemma cacher_Get_maxEntries: "maxEntries (snd (cacher_Get c k)) = maxEntries c"
  by (simp add: cacher_Get_def split: option.splits)

lemma cacher_Get_length: "length (items (snd (cacher_Get c k))) \<le> length (items c)"
  by (auto simp add: cacher_Get_def length_filter_present split: option.splits)

lemma cacher_Get_set: "set (items (snd (cacher_Get c k))) \<subseteq> set (items c)"
  by (auto simp add: cacher_Get_def split: option.splits dest: map_of_SomeD)

lemma cacher_Get_distinct:
  "distinct (map fst (items c)) \<Longrightarrow> distinct (map fst (items (snd (cacher_Get c k))))"
  by (auto simp add: cacher_Get_def distinct_keys_filter split: option.splits)

lemma cacher_Put_maxEntries: "maxEntries (cacher_Put c k v) = maxEntries c"
  by (simp add: cacher_Put_def)

lemma cacher_Put_length: "length (items (cacher_Put c k v)) \<le> maxEntries c"
  by (simp add: cacher_Put_def)

lemma cacher_Put_set: "set (items (cacher_Put c k v)) \<subseteq> insert (k, v) (set (items c))"
  by (auto simp add: cacher_Put_def dest!: in_set_takeD)

lemma cacher_Put_distinct:
  "distinct (map fst (items c)) \<Longrightarrow> distinct (map fst (items (cacher_Put c k v)))"
proof -
  assume d: "distinct (map fst (items c))"
  have "distinct (map fst ((k, v) # filter (\<lambda>e. fst e \<noteq> k) (items c)))"
    using d by (auto simp: distinct_keys_filter)
  then have "distinct (map fst (take (maxEntries c) ((k, v) # filter (\<lambda>e. fst e \<noteq> k) (items c))))"
    by (metis distinct_take take_map)
  then show ?thesis by (simp add: cacher_Put_def)
qed

lemma cacher_Put_same:
  "0 < maxEntries c \<Longrightarrow> map_of (items (cacher_Put c k v)) k = Some v"
  by (cases "maxEntries c") (simp_all add: cacher_Put_def)

lemma cacher_Put_same_cases:
  "map_of (items (cacher_Put c k v)) k = None \<or> map_of (items (cacher_Put c k v)) k = Some v"
  by (cases "maxEntries c") (simp_all add: cacher_Put_def)

lemma cacher_Put_present:
  assumes "map_of (items c) k = Some w" and "length (items c) \<le> maxEntries c"
  shows "map_of (items (cacher_Put c k v)) = (map_of (items c))(k \<mapsto> v)"
proof -
  have "length ((k, v) # filter (\<lambda>e. fst e \<noteq> k) (items c)) \<le> maxEntries c"
    using length_filter_present [OF assms(1)] assms(2) by simp
  then have "items (cacher_Put c k v) = (k, v) # filter (\<lambda>e. fst e \<noteq> k) (items c)"
    by (simp add: cacher_Put_def)
  then show ?thesis
    by (auto simp add: fun_eq_iff map_of_filter_other)
qed

lemma accumulate_global:
  "isGlobalQuotaReached qfp \<Longrightarrow> accumulate qfp p sz = (False, qfp)"
  by (simp add: accumulate_def)

lemma accumulate_absent:
  "\<not> isGlobalQuotaReached qfp \<Longrightarrow> map_of (items (cacher qfp)) p = None \<Longrightarrow>
   accumulate qfp p sz = (True, putDefaultQuota qfp p sz)"
  by (simp add: accumulate_def cacher_Get_def)

lemma accumulate_other:
  "\<not> isGlobalQuotaReached qfp \<Longrightarrow> map_of (items (cacher qfp)) p = Some OtherValue \<Longrightarrow>
   accumulate qfp p sz =
     (True, putDefaultQuota (qfp\<lparr>cacher := snd (cacher_Get (cacher qfp) p)\<rparr>) p sz)"
  by (simp add: accumulate_def cacher_Get_def)

lemma accumulate_rejected:
  "\<not> isGlobalQuotaReached qfp \<Longrightarrow> map_of (items (cacher qfp)) p = Some (QuotaPtr a) \<Longrightarrow>
   isPeerQuotaReached qfp (addReceived (quotas qfp ! a) sz) \<Longrightarrow>
   accumulate qfp p sz =
     (False, qfp\<lparr>cacher := snd (cacher_Get (cacher qfp) p),
                 quotas := (quotas qfp)[a := addReceived (quotas qfp ! a) sz]\<rparr>)"
  by (simp add: accumulate_def cacher_Get_def)

lemma accumulate_admitted:
  "\<not> isGlobalQuotaReached qfp \<Longrightarrow> map_of (items (cacher qfp)) p = Some (QuotaPtr a) \<Longrightarrow>
   \<not> isPeerQuotaReached qfp (addReceived (quotas qfp ! a) sz) \<Longrightarrow>
   accumulate qfp p sz =
     (True, qfp\<lparr>cacher := cacher_Put (snd (cacher_Get (cacher qfp) p)) p (QuotaPtr a),
                quotas := (quotas qfp)[a := addProcessed (addReceived (quotas qfp ! a) sz) sz]\<rparr>)"
  by (simp add: accumulate_def cacher_Get_def)

lemma wellFormed_ptr:
  "wellFormed qfp \<Longrightarrow> map_of (items (cacher qfp)) p = Some (QuotaPtr a) \<Longrightarrow> a < length (quotas qfp)"
  by (auto simp: wellFormed_def list_all_iff dest!: map_of_SomeD)

lemma refresh_Put_keeps:
  assumes "length (items c) \<le> maxEntries c" and "map_of (items c) p = Some w"
  shows "map_of (items (cacher_Put (snd (cacher_Get c p)) p v)) = (map_of (items c))(p \<mapsto> v)"
proof -
  let ?c = "snd (cacher_Get c p)"
  have "map_of (items ?c) p = Some w"
    using assms(2) by (simp add: cacher_Get_map_of)
  moreover have "length (items ?c) \<le> maxEntries ?c"
    using assms(1) cacher_Get_length [of c p] by (simp add: cacher_Get_maxEntries)
  ultimately show ?thesis
    using cacher_Put_present [of ?c p w v] by (simp add: cacher_Get_map_of)
qed

lemma wellFormed_intro:
  assumes "distinct (map fst (items (cacher qfp)))"
      and "length (items (cacher qfp)) \<le> maxEntries (cacher qfp)"
      and "\<And>k a. (k, QuotaPtr a) \<in> set (items (cacher qfp)) \<Longrightarrow> a < length (quotas qfp)"
  shows "wellFormed qfp"
  using assms by (auto simp: wellFormed_def list_all_iff split: cacheValue.splits)

lemma wellFormed_ptr_set:
  "wellFormed qfp \<Longrightarrow> (k, QuotaPtr a) \<in> set (items (cacher qfp)) \<Longrightarrow> a < length (quotas qfp)"
  by (auto simp: wellFormed_def list_all_iff)

lemma wellFormed_refresh:
  assumes "wellFormed qfp"
  shows "wellFormed (qfp\<lparr>cacher := snd (cacher_Get (cacher qfp) p)\<rparr>)"
proof (rule wellFormed_intro)
  show "distinct (map fst (items (cacher (qfp\<lparr>cacher := snd (cacher_Get (cacher qfp) p)\<rparr>))))"
    using assms by (simp add: wellFormed_def cacher_Get_distinct)
  show "length (items (cacher (qfp\<lparr>cacher := snd (cacher_Get (cacher qfp) p)\<rparr>)))
          \<le> maxEntries (cacher (qfp\<lparr>cacher := snd (cacher_Get (cacher qfp) p)\<rparr>))"
    using assms cacher_Get_length [of "cacher qfp" p]
    by (simp add: wellFormed_def cacher_Get_maxEntries)
  fix k a
  assume "(k, QuotaPtr a) \<in> set (items (cacher (qfp\<lparr>cacher := snd (cacher_Get (cacher qfp) p)\<rparr>)))"
  then have "(k, QuotaPtr a) \<in> set (items (cacher qfp))"
    using cacher_Get_set [of "cacher qfp" p] by auto
  then show "a < length (quotas (qfp\<lparr>cacher := snd (cacher_Get (cacher qfp) p)\<rparr>))"
    using assms by (auto dest: wellFormed_ptr_set)
qed

lemma wellFormed_putDefaultQuota:
  assumes "wellFormed qfp"
  shows "wellFormed (putDefaultQuota qfp p sz)"
proof (rule wellFormed_intro)
  show "distinct (map fst (items (cacher (putDefaultQuota qfp p sz))))"
    using assms by (simp add: wellFormed_def putDefaultQuota_def cacher_Put_distinct)
  show "length (items (cacher (putDefaultQuota qfp p sz)))
          \<le> maxEntries (cacher (putDefaultQuota qfp p sz))"
    by (simp add: putDefaultQuota_def cacher_Put_length cacher_Put_maxEntries)
  fix k a
  assume "(k, QuotaPtr a) \<in> set (items (cacher (putDefaultQuota qfp p sz)))"
  then have "(k, QuotaPtr a) \<in> insert (p, QuotaPtr (length (quotas qfp))) (set (items (cacher qfp)))"
    using cacher_Put_set [of "cacher qfp" p "QuotaPtr (length (quotas qfp))"]
    by (auto simp: putDefaultQuota_def)
  then show "a < length (quotas (putDefaultQuota qfp p sz))"
    using assms by (auto simp: putDefaultQuota_def dest: wellFormed_ptr_set less_SucI)
qed

lemma wellFormed_quotas_update:
  "wellFormed qfp \<Longrightarrow> wellFormed (qfp\<lparr>quotas := (quotas qfp)[a := q]\<rparr>)"
  by (auto simp: wellFormed_def list_all_iff split: cacheValue.splits)

lemma wellFormed_globalQuota:
  "wellFormed (qfp\<lparr>globalQuota := g\<rparr>) = wellFormed qfp"
  by (auto simp: wellFormed_def list_all_iff split: cacheValue.splits)

lemma wellFormed_Put_ptr:
  assumes "wellFormed qfp" and "a < length (quotas qfp)"
  shows "wellFormed (qfp\<lparr>cacher := cacher_Put (cacher qfp) p (QuotaPtr a)\<rparr>)"
proof (rule wellFormed_intro)
  show "distinct (map fst (items (cacher (qfp\<lparr>cacher := cacher_Put (cacher qfp) p (QuotaPtr a)\<rparr>))))"
    using assms by (simp add: wellFormed_def cacher_Put_distinct)
  show "length (items (cacher (qfp\<lparr>cacher := cacher_Put (cacher qfp) p (QuotaPtr a)\<rparr>)))
          \<le> maxEntries (cacher (qfp\<lparr>cacher := cacher_Put (cacher qfp) p (QuotaPtr a)\<rparr>))"
    by (simp add: cacher_Put_length cacher_Put_maxEntries)
  fix k b
  assume "(k, QuotaPtr b) \<in> set (items (cacher (qfp\<lparr>cacher := cacher_Put (cacher qfp) p (QuotaPtr a)\<rparr>)))"
  then have "(k, QuotaPtr b) \<in> insert (p, QuotaPtr a) (set (items (cacher qfp)))"
    using cacher_Put_set [of "cacher qfp" p "QuotaPtr a"] by auto
  then show "b < length (quotas (qfp\<lparr>cacher := cacher_Put (cacher qfp) p (QuotaPtr a)\<rparr>))"
    using assms by (auto dest: wellFormed_ptr_set)
qed

text \<open>The five outcomes of accumulate, by the state they are decided on.\<close>

lemma accumulate_cases [consumes 0, case_names global absent other rejected admitted]:
  assumes "isGlobalQuotaReached qfp \<Longrightarrow> P"
      and "\<not> isGlobalQuotaReached qfp \<Longrightarrow> map_of (items (cacher qfp)) p = None \<Longrightarrow> P"
      and "\<not> isGlobalQuotaReached qfp \<Longrightarrow> map_of (items (cacher qfp)) p = Some OtherValue \<Longrightarrow> P"
      and "\<And>a. \<not> isGlobalQuotaReached qfp \<Longrightarrow> map_of (items (cacher qfp)) p = Some (QuotaPtr a) \<Longrightarrow>
             isPeerQuotaReached qfp (addReceived (quotas qfp ! a) sz) \<Longrightarrow> P"
      and "\<And>a. \<not> isGlobalQuotaReached qfp \<Longrightarrow> map_of (items (cacher qfp)) p = Some (QuotaPtr a) \<Longrightarrow>
             \<not> isPeerQuotaReached qfp (addReceived (quotas qfp ! a) sz) \<Longrightarrow> P"
  shows P
proof (cases "isGlobalQuotaReached qfp")
  case True
  then show ?thesis by (rule assms(1))
next
  case False
  show ?thesis
  proof (cases "map_of (items (cacher qfp)) p")
    case None
    with False show ?thesis by (rule assms(2))
  next
    case (Some v)
    show ?thesis
    proof (cases v)
      case (QuotaPtr a)
      with Some False show ?thesis
        by (cases "isPeerQuotaReached qfp (addReceived (quotas qfp ! a) sz)")
           (auto intro: assms(4) assms(5))
    next
      case OtherValue
      with Some False show ?thesis by (auto intro: assms(3))
    qed
  qed
qed

lemma wellFormed_accumulate:
  assumes wf: "wellFormed qfp"
  shows "wellFormed (snd (accumulate qfp p sz))"
proof (cases rule: accumulate_cases [where qfp=qfp and p=p and sz=sz])
  case global
  then show ?thesis using wf by (simp add: accumulate_global)
next
  case absent
  then show ?thesis using wf by (simp add: accumulate_absent wellFormed_putDefaultQuota)
next
  case other
  then show ?thesis using wf
    by (simp add: accumulate_other wellFormed_putDefaultQuota wellFormed_refresh)
next
  case (rejected a)
  have "wellFormed ((qfp\<lparr>cacher := snd (cacher_Get (cacher qfp) p)\<rparr>)
          \<lparr>quotas := (quotas (qfp\<lparr>cacher := snd (cacher_Get (cacher qfp) p)\<rparr>))
                       [a := addReceived (quotas qfp ! a) sz]\<rparr>)"
    using wf by (intro wellFormed_quotas_update wellFormed_refresh)
  then show ?thesis using rejected by (simp add: accumulate_rejected)
next
  case (admitted a)
  have a_lt: "a < length (quotas qfp)"
    using wf admitted(2) by (rule wellFormed_ptr)
  let ?q1 = "qfp\<lparr>cacher := snd (cacher_Get (cacher qfp) p)\<rparr>"
  have "wellFormed ?q1" using wf by (rule wellFormed_refresh)
  then have "wellFormed (?q1\<lparr>cacher := cacher_Put (cacher ?q1) p (QuotaPtr a)\<rparr>)"
    using a_lt by (intro wellFormed_Put_ptr) simp_all
  then have "wellFormed ((?q1\<lparr>cacher := cacher_Put (cacher ?q1) p (QuotaPtr a)\<rparr>)
          \<lparr>quotas := (quotas (?q1\<lparr>cacher := cacher_Put (cacher ?q1) p (QuotaPtr a)\<rparr>))
                       [a := addProcessed (addReceived (quotas qfp ! a) sz) sz]\<rparr>)"
    by (rule wellFormed_quotas_update)
  then show ?thesis using admitted by (simp add: accumulate_admitted)
qed

lemma wellFormed_Reset: "wellFormed (Reset qfp)"
  by (simp add: Reset_def Let_def wellFormed_def cacher_Clear_def)

lemma wellFormed_step:
  assumes "wellFormed qfp"
  shows "wellFormed (snd (step qfp x))"
proof (cases x)
  case (OpAccumulate p sz)
  then show ?thesis
    using wellFormed_accumulate [OF assms, of p sz]
    by (auto simp add: Accumulate_def split: prod.splits)
next
  case (OpAccumulateGlobal p sz)
  have "wellFormed (qfp\<lparr>globalQuota := addReceived (globalQuota qfp) sz\<rparr>)"
    using assms by (simp add: wellFormed_globalQuota)
  from wellFormed_accumulate [OF this, of p sz] OpAccumulateGlobal show ?thesis
    by (auto simp add: AccumulateGlobal_def wellFormed_globalQuota split: prod.splits)
next
  case OpReset
  then show ?thesis by (simp add: wellFormed_Reset)
qed

text \<open>Every state reached from a new flood preventer over a new cache is well-formed.\<close>

lemma wellFormed_new:
  assumes "NewQuotaFloodPreventer (Some (newCacher n)) handlers
             maxMessagesPerPeerArg maxTotalSizePerPeer maxMessagesArg maxTotalSize = Inr qfp"
  shows "wellFormed qfp \<and> quotaInvariant qfp"
proof -
  have "items (cacher qfp) = []"
    using assms by (auto simp: NewQuotaFloodPreventer_def newCacher_def split: if_splits)
  then show ?thesis by (simp add: wellFormed_def quotaInvariant_def)
qed

lemma wellFormed_run:
  "wellFormed qfp \<Longrightarrow> wellFormed (snd (run qfp ops))"
proof (induction ops arbitrary: qfp)
  case Nil
  then show ?case by simp
next
  case (Cons x xs)
  have "wellFormed (snd (run (snd (step qfp x)) xs))"
    using Cons.prems by (intro Cons.IH wellFormed_step)
  then show ?case by (auto split: prod.splits)
qed

subsection \<open>The cached record counts every call\<close>

text \<open>
  Claim C10. When the cache holds a quota object for the peer and the global quota is
  not reached, a call of \<open>Accumulate\<close> leaves the same object in the cache for the peer,
  with \<open>numReceivedMessages\<close> incremented by 1 and \<open>sizeReceivedMessages\<close> by the size,
  whether the call is admitted or rejected (the object is mutated through the pointer,
  although a rejected call does not \<open>Put\<close> it). A rejected call leaves the processed
  counters unchanged; an admitted call increments them as well. The increments are those
  of uint32 and uint64.
\<close>

theorem cached_record_counts_every_call:
  assumes wf: "wellFormed qfp"
      and cached: "map_of (items (cacher qfp)) p = Some (QuotaPtr a)"
      and glob: "\<not> isGlobalQuotaReached qfp"
      and call: "Accumulate qfp p sz = (admitted, qfp')"
  shows "map_of (items (cacher qfp')) p = Some (QuotaPtr a) \<and>
         numReceivedMessages (quotas qfp' ! a) = numReceivedMessages (quotas qfp ! a) + 1 \<and>
         sizeReceivedMessages (quotas qfp' ! a) = sizeReceivedMessages (quotas qfp ! a) + sz \<and>
         (\<not> admitted \<longrightarrow>
            numProcessedMessages (quotas qfp' ! a) = numProcessedMessages (quotas qfp ! a) \<and>
            sizeProcessedMessages (quotas qfp' ! a) = sizeProcessedMessages (quotas qfp ! a)) \<and>
         (admitted \<longrightarrow>
            numProcessedMessages (quotas qfp' ! a) = numProcessedMessages (quotas qfp ! a) + 1 \<and>
            sizeProcessedMessages (quotas qfp' ! a) = sizeProcessedMessages (quotas qfp ! a) + sz)"
proof -
  have a_lt: "a < length (quotas qfp)"
    using wf cached by (rule wellFormed_ptr)
  have len: "length (items (cacher qfp)) \<le> maxEntries (cacher qfp)"
    using wf by (simp add: wellFormed_def)
  show ?thesis
  proof (cases "isPeerQuotaReached qfp (addReceived (quotas qfp ! a) sz)")
    case True
    from accumulate_rejected [OF glob cached True] call
    have "admitted = False"
      "qfp' = qfp\<lparr>cacher := snd (cacher_Get (cacher qfp) p),
                  quotas := (quotas qfp)[a := addReceived (quotas qfp ! a) sz]\<rparr>"
      by (simp_all add: Accumulate_def)
    then show ?thesis using a_lt cached by (simp add: addReceived_def cacher_Get_map_of)
  next
    case False
    from accumulate_admitted [OF glob cached False] call
    have "admitted = True"
      "qfp' = qfp\<lparr>cacher := cacher_Put (snd (cacher_Get (cacher qfp) p)) p (QuotaPtr a),
                  quotas := (quotas qfp)[a := addProcessed (addReceived (quotas qfp ! a) sz) sz]\<rparr>"
      by (simp_all add: Accumulate_def)
    then show ?thesis using a_lt refresh_Put_keeps [OF len cached]
      by (simp add: addReceived_def addProcessed_def)
  qed
qed

theorem cached_record_counts_every_call_witness:
  "wellFormed scenarioTwoCalls \<and>
   map_of (items (cacher scenarioTwoCalls)) ''P'' = Some (QuotaPtr 0) \<and>
   \<not> isGlobalQuotaReached scenarioTwoCalls \<and>
   fst (Accumulate scenarioTwoCalls ''P'' 40) = False \<and>
   map_of (items (cacher (snd (Accumulate scenarioTwoCalls ''P'' 40)))) ''P'' = Some (QuotaPtr 0) \<and>
   numReceivedMessages (quotas (snd (Accumulate scenarioTwoCalls ''P'' 40)) ! 0) = 3 \<and>
   sizeReceivedMessages (quotas (snd (Accumulate scenarioTwoCalls ''P'' 40)) ! 0) = 120 \<and>
   numProcessedMessages (quotas (snd (Accumulate scenarioTwoCalls ''P'' 40)) ! 0) = 2 \<and>
   sizeProcessedMessages (quotas (snd (Accumulate scenarioTwoCalls ''P'' 40)) ! 0) = 80"
proof -
  have wf: "wellFormed scenarioTwoCalls"
    by (simp add: wellFormed_def scenarioTwoCalls_def)
  have cached: "map_of (items (cacher scenarioTwoCalls)) ''P'' = Some (QuotaPtr 0)"
    by (simp add: scenarioTwoCalls_def)
  have glob: "\<not> isGlobalQuotaReached scenarioTwoCalls"
    by (simp add: isGlobalQuotaReached_def scenarioTwoCalls_def emptyQuota_def)
  have rejected: "fst (Accumulate scenarioTwoCalls ''P'' 40) = False"
    by (simp add: Accumulate_def accumulate_def isGlobalQuotaReached_def cacher_Get_def
        isPeerQuotaReached_def addReceived_def scenarioTwoCalls_def emptyQuota_def)
  have call: "Accumulate scenarioTwoCalls ''P'' 40 =
                (False, snd (Accumulate scenarioTwoCalls ''P'' 40))"
    using rejected by (metis prod.collapse)
  have before: "quotas scenarioTwoCalls ! 0 =
      \<lparr>numReceivedMessages = 2, sizeReceivedMessages = 80,
       numProcessedMessages = 2, sizeProcessedMessages = 80\<rparr>"
    by (simp add: scenarioTwoCalls_def)
  show ?thesis
    using cached_record_counts_every_call [OF wf cached glob call] wf cached glob rejected
    by (simp add: before)
qed

lemma unat_add_bounded:
  "unat x + unat y \<le> unat m \<Longrightarrow> unat (x + y) = unat x + unat y"
  for x y m :: "'a::len word"
proof -
  assume "unat x + unat y \<le> unat m"
  moreover have "unat m < 2 ^ LENGTH('a)" by (rule unsigned_less)
  ultimately have "unat x + unat y < 2 ^ LENGTH('a)" by linarith
  then show ?thesis by (rule unat_add_lem [THEN iffD1])
qed

lemma accumulate_frame:
  "globalQuota (snd (accumulate qfp p sz)) = globalQuota qfp"
  "maxMessagesPerPeer (snd (accumulate qfp p sz)) = maxMessagesPerPeer qfp"
  "maxSizePerPeer (snd (accumulate qfp p sz)) = maxSizePerPeer qfp"
  "maxMessages (snd (accumulate qfp p sz)) = maxMessages qfp"
  "maxSize (snd (accumulate qfp p sz)) = maxSize qfp"
  "statusHandlers (snd (accumulate qfp p sz)) = statusHandlers qfp"
  by (cases rule: accumulate_cases [where qfp=qfp and p=p and sz=sz];
      simp add: accumulate_global accumulate_absent accumulate_other accumulate_rejected
        accumulate_admitted putDefaultQuota_def)+

lemma isGlobalQuotaReached_accumulate:
  "isGlobalQuotaReached (snd (accumulate qfp p sz)) = isGlobalQuotaReached qfp"
  by (simp add: isGlobalQuotaReached_def accumulate_frame)

lemma putDefaultQuota_lookup:
  "map_of (items (cacher (putDefaultQuota qfp p sz))) p = None \<or>
   map_of (items (cacher (putDefaultQuota qfp p sz))) p = Some (QuotaPtr (length (quotas qfp)))"
  using cacher_Put_same_cases [of "cacher qfp" p "QuotaPtr (length (quotas qfp))"]
  by (simp add: putDefaultQuota_def)

lemma putDefaultQuota_new:
  "quotas (putDefaultQuota qfp p sz) ! length (quotas qfp) =
     \<lparr>numReceivedMessages = 1, sizeReceivedMessages = sz,
      numProcessedMessages = 1, sizeProcessedMessages = sz\<rparr>"
  "length (quotas (putDefaultQuota qfp p sz)) = Suc (length (quotas qfp))"
  by (simp_all add: putDefaultQuota_def initNumMessages_def)

subsection \<open>Calls within the budget of a peer are admitted\<close>

text \<open>
  If the budget left for the peer covers the calls \<open>ss\<close>, all of them are admitted: the
  statement for any state, for the induction.
\<close>

lemma accumulate_all_admitted:
  assumes "\<not> isGlobalQuotaReached qfp"
      and "case map_of (items (cacher qfp)) p of
             Some (QuotaPtr a) \<Rightarrow>
               a < length (quotas qfp) \<and>
               unat (numReceivedMessages (quotas qfp ! a)) + length ss
                 \<le> unat (maxMessagesPerPeer qfp) \<and>
               unat (sizeReceivedMessages (quotas qfp ! a)) + sum_list (map unat ss)
                 \<le> unat (maxSizePerPeer qfp)
           | _ \<Rightarrow> length ss \<le> unat (maxMessagesPerPeer qfp) \<and>
                  sum_list (map unat ss) \<le> unat (maxSizePerPeer qfp)"
  shows "fst (run qfp (map (OpAccumulate p) ss)) = replicate (length ss) (Some True)"
  using assms
proof (induction ss arbitrary: qfp)
  case Nil
  then show ?case by simp
next
  case (Cons s rest)
  let ?qfp1 = "snd (accumulate qfp p s)"
  have glob1: "\<not> isGlobalQuotaReached ?qfp1"
    using Cons.prems(1) by (simp add: isGlobalQuotaReached_accumulate)
  have fresh: "fst (accumulate qfp p s) = True \<and>
        (case map_of (items (cacher ?qfp1)) p of
             Some (QuotaPtr a) \<Rightarrow>
               a < length (quotas ?qfp1) \<and>
               unat (numReceivedMessages (quotas ?qfp1 ! a)) + length rest
                 \<le> unat (maxMessagesPerPeer ?qfp1) \<and>
               unat (sizeReceivedMessages (quotas ?qfp1 ! a)) + sum_list (map unat rest)
                 \<le> unat (maxSizePerPeer ?qfp1)
           | _ \<Rightarrow> length rest \<le> unat (maxMessagesPerPeer ?qfp1) \<and>
                  sum_list (map unat rest) \<le> unat (maxSizePerPeer ?qfp1))"
  proof (cases rule: accumulate_cases [where qfp=qfp and p=p and sz=s])
    case global
    then show ?thesis using Cons.prems(1) by simp
  next
    case absent
    have bounds: "Suc (length rest) \<le> unat (maxMessagesPerPeer qfp)"
      "unat s + sum_list (map unat rest) \<le> unat (maxSizePerPeer qfp)"
      using Cons.prems(2) absent(2) by simp_all
    have eq: "accumulate qfp p s = (True, putDefaultQuota qfp p s)"
      using absent by (simp add: accumulate_absent)
    show ?thesis
      using putDefaultQuota_lookup [of qfp p s] bounds
      by (auto simp add: eq putDefaultQuota_new) (simp_all add: putDefaultQuota_def)
  next
    case other
    have bounds: "Suc (length rest) \<le> unat (maxMessagesPerPeer qfp)"
      "unat s + sum_list (map unat rest) \<le> unat (maxSizePerPeer qfp)"
      using Cons.prems(2) other(2) by simp_all
    let ?q = "qfp\<lparr>cacher := snd (cacher_Get (cacher qfp) p)\<rparr>"
    have eq: "accumulate qfp p s = (True, putDefaultQuota ?q p s)"
      using other by (simp add: accumulate_other)
    show ?thesis
      using putDefaultQuota_lookup [of ?q p s] bounds putDefaultQuota_new [of ?q p s]
      by (auto simp add: eq) (simp_all add: putDefaultQuota_def)
  next
    case (rejected a)
    have b: "a < length (quotas qfp)"
      "unat (numReceivedMessages (quotas qfp ! a)) + Suc (length rest)
         \<le> unat (maxMessagesPerPeer qfp)"
      "unat (sizeReceivedMessages (quotas qfp ! a)) + (unat s + sum_list (map unat rest))
         \<le> unat (maxSizePerPeer qfp)"
      using Cons.prems(2) rejected(2) by simp_all
    have "unat (numReceivedMessages (quotas qfp ! a)) + unat (1::uint32)
            \<le> unat (maxMessagesPerPeer qfp)"
      using b(2) by simp
    then have n: "unat (numReceivedMessages (quotas qfp ! a) + 1)
            = unat (numReceivedMessages (quotas qfp ! a)) + 1"
      using unat_add_bounded [of "numReceivedMessages (quotas qfp ! a)" 1 "maxMessagesPerPeer qfp"]
      by simp
    have "unat (sizeReceivedMessages (quotas qfp ! a)) + unat s \<le> unat (maxSizePerPeer qfp)"
      using b(3) by simp
    then have z: "unat (sizeReceivedMessages (quotas qfp ! a) + s)
            = unat (sizeReceivedMessages (quotas qfp ! a)) + unat s"
      by (rule unat_add_bounded)
    have "\<not> isPeerQuotaReached qfp (addReceived (quotas qfp ! a) s)"
      using b n z by (simp add: isPeerQuotaReached_def addReceived_def word_less_nat_alt)
    with rejected(3) show ?thesis by simp
  next
    case (admitted a)
    have b: "a < length (quotas qfp)"
      "unat (numReceivedMessages (quotas qfp ! a)) + Suc (length rest)
         \<le> unat (maxMessagesPerPeer qfp)"
      "unat (sizeReceivedMessages (quotas qfp ! a)) + (unat s + sum_list (map unat rest))
         \<le> unat (maxSizePerPeer qfp)"
      using Cons.prems(2) admitted(2) by simp_all
    have "unat (numReceivedMessages (quotas qfp ! a)) + unat (1::uint32)
            \<le> unat (maxMessagesPerPeer qfp)"
      using b(2) by simp
    then have n: "unat (numReceivedMessages (quotas qfp ! a) + 1)
            = unat (numReceivedMessages (quotas qfp ! a)) + 1"
      using unat_add_bounded [of "numReceivedMessages (quotas qfp ! a)" 1 "maxMessagesPerPeer qfp"]
      by simp
    have "unat (sizeReceivedMessages (quotas qfp ! a)) + unat s \<le> unat (maxSizePerPeer qfp)"
      using b(3) by simp
    then have z: "unat (sizeReceivedMessages (quotas qfp ! a) + s)
            = unat (sizeReceivedMessages (quotas qfp ! a)) + unat s"
      by (rule unat_add_bounded)
    let ?c = "cacher_Put (snd (cacher_Get (cacher qfp) p)) p (QuotaPtr a)"
    have eq: "accumulate qfp p s =
        (True, qfp\<lparr>cacher := ?c,
                   quotas := (quotas qfp)[a := addProcessed (addReceived (quotas qfp ! a) s) s]\<rparr>)"
      using admitted by (simp add: accumulate_admitted)
    have look: "map_of (items ?c) p = None \<or> map_of (items ?c) p = Some (QuotaPtr a)"
      by (rule cacher_Put_same_cases)
    show ?thesis
      using look b n z
      by (auto simp add: eq addProcessed_def addReceived_def)
  qed
  have "fst (run ?qfp1 (map (OpAccumulate p) rest)) = replicate (length rest) (Some True)"
    using glob1 fresh by (intro Cons.IH) simp_all
  then show ?case
    using fresh by (auto simp add: Accumulate_def split: prod.splits)
qed

text \<open>
  Claim C1. On a flood preventer just constructed over a new cache, for any peer and any
  sequence of \<open>Accumulate\<close> calls for that peer alone: if the number of calls is at most
  the maximum number of messages per peer and the sum of the sizes (as natural numbers)
  is at most the maximum size per peer, then every call returns true.
\<close>

theorem within_budget_all_admitted:
  assumes "NewQuotaFloodPreventer (Some (newCacher n)) handlers
             maxMessagesPerPeerArg maxTotalSizePerPeer maxMessagesArg maxTotalSize = Inr qfp"
      and "length ss \<le> unat maxMessagesPerPeerArg"
      and "sum_list (map unat ss) \<le> unat maxTotalSizePerPeer"
  shows "fst (run qfp (map (OpAccumulate p) ss)) = replicate (length ss) (Some True)"
proof -
  have qfp: "cacher qfp = newCacher n" "globalQuota qfp = emptyQuota"
    "maxMessagesPerPeer qfp = maxMessagesPerPeerArg" "maxSizePerPeer qfp = maxTotalSizePerPeer"
    using assms(1) by (auto simp: NewQuotaFloodPreventer_def split: if_splits)
  have "\<not> isGlobalQuotaReached qfp"
    by (simp add: isGlobalQuotaReached_def qfp emptyQuota_def)
  moreover have "map_of (items (cacher qfp)) p = None"
    by (simp add: qfp newCacher_def)
  ultimately show ?thesis
    using assms(2,3) by (intro accumulate_all_admitted) (simp_all add: qfp)
qed


theorem within_budget_all_admitted_witness:
  "NewQuotaFloodPreventer (Some (newCacher 8)) [Some []] 2 100 10 1000 = Inr scenarioFresh \<and>
   length [40, 40 :: uint64] \<le> unat (2 :: uint32) \<and>
   sum_list (map unat [40, 40 :: uint64]) \<le> unat (100 :: uint64) \<and>
   fst (run scenarioFresh (map (OpAccumulate ''P'') [40, 40])) = [Some True, Some True]"
proof -
  have new: "NewQuotaFloodPreventer (Some (newCacher 8)) [Some []] 2 100 10 1000 = Inr scenarioFresh"
    by (simp add: NewQuotaFloodPreventer_def scenarioFresh_def minMessages_def minTotalSize_def)
  have len: "length [40, 40 :: uint64] \<le> unat (2 :: uint32)" by simp
  have total: "sum_list (map unat [40, 40 :: uint64]) \<le> unat (100 :: uint64)" by simp
  show ?thesis
    using within_budget_all_admitted [OF new len total, of "''P''"] new len total by simp
qed

subsection \<open>Reset\<close>

lemma createStatistics_keys_handlers:
  "\<exists>evs. statusHandlers (createStatistics_keys qfp ks) = map (\<lambda>h. h @ evs) (statusHandlers qfp)"
proof (induction ks arbitrary: qfp)
  case Nil
  have "statusHandlers qfp = map (\<lambda>h. h @ []) (statusHandlers qfp)" by simp
  then show ?case by (auto simp del: append_Nil2)
next
  case (Cons k ks)
  show ?case
  proof (cases "cacher_Get (cacher qfp) k")
    case (Pair r c)
    show ?thesis
    proof (cases r)
      case None
      with Pair Cons.IH [of "qfp\<lparr>cacher := c\<rparr>"] show ?thesis by simp
    next
      case (Some v)
      show ?thesis
      proof (cases v)
        case OtherValue
        with Some Pair Cons.IH [of "qfp\<lparr>cacher := c\<rparr>"] show ?thesis by simp
      next
        case (QuotaPtr a)
        let ?ev = "AddQuota k (numReceivedMessages (quotas qfp ! a))
                     (sizeReceivedMessages (quotas qfp ! a))
                     (numProcessedMessages (quotas qfp ! a))
                     (sizeProcessedMessages (quotas qfp ! a))"
        let ?q = "addQuota (qfp\<lparr>cacher := c\<rparr>) k (numReceivedMessages (quotas qfp ! a))
                     (sizeReceivedMessages (quotas qfp ! a))
                     (numProcessedMessages (quotas qfp ! a))
                     (sizeProcessedMessages (quotas qfp ! a))"
        obtain evs where evs: "statusHandlers (createStatistics_keys ?q ks)
              = map (\<lambda>h. h @ evs) (statusHandlers ?q)"
          using Cons.IH [of ?q] by blast
        have "statusHandlers ?q = map (\<lambda>h. h @ [?ev]) (statusHandlers qfp)"
          by (simp add: addQuota_def)
        then have "statusHandlers (createStatistics_keys ?q ks)
              = map (\<lambda>h. h @ (?ev # evs)) (statusHandlers qfp)"
          using evs by simp
        then show ?thesis using QuotaPtr Some Pair by auto
      qed
    qed
  qed
qed

lemma createStatistics_handlers:
  "\<exists>evs. statusHandlers (createStatistics qfp) = map (\<lambda>h. h @ evs) (statusHandlers qfp)"
proof -
  let ?q = "createStatistics_keys qfp (cacher_Keys (cacher qfp))"
  obtain evs where evs: "statusHandlers ?q = map (\<lambda>h. h @ evs) (statusHandlers qfp)"
    using createStatistics_keys_handlers by blast
  let ?g = "SetGlobalQuota (numReceivedMessages (globalQuota ?q)) (sizeReceivedMessages (globalQuota ?q))
             (numProcessedMessages (globalQuota ?q)) (sizeProcessedMessages (globalQuota ?q))"
  have "statusHandlers (createStatistics qfp) = map (\<lambda>h. h @ (evs @ [?g])) (statusHandlers qfp)"
    by (simp add: createStatistics_def Let_def setGlobalQuota_def evs)
  then show ?thesis by blast
qed

text \<open>
  Claim C3. After \<open>Reset\<close>, from any state: the cache is empty, the four counters of
  the global quota are zero, every status handler has received \<open>ResetStatistics\<close>
  (followed by the statistics of the interval, the same calls for every handler), and
  the next \<open>Accumulate\<close> returns true for every peer and every size.
\<close>

theorem Reset_clears_and_readmits:
  "items (cacher (Reset qfp)) = [] \<and>
   cacher_Keys (cacher (Reset qfp)) = [] \<and>
   numReceivedMessages (globalQuota (Reset qfp)) = 0 \<and>
   sizeReceivedMessages (globalQuota (Reset qfp)) = 0 \<and>
   numProcessedMessages (globalQuota (Reset qfp)) = 0 \<and>
   sizeProcessedMessages (globalQuota (Reset qfp)) = 0 \<and>
   (\<exists>evs. statusHandlers (Reset qfp) =
            map (\<lambda>h. h @ ResetStatistics # evs) (statusHandlers qfp)) \<and>
   fst (Accumulate (Reset qfp) p sz) = True"
proof -
  have cleared: "items (cacher (Reset qfp)) = []"
    by (simp add: Reset_def Let_def cacher_Clear_def)
  have zero: "globalQuota (Reset qfp) = emptyQuota"
    by (simp add: Reset_def Let_def)
  obtain evs where "statusHandlers (createStatistics (resetStatusHandlers qfp))
       = map (\<lambda>h. h @ evs) (statusHandlers (resetStatusHandlers qfp))"
    using createStatistics_handlers by blast
  then have "statusHandlers (Reset qfp) = map (\<lambda>h. h @ ResetStatistics # evs) (statusHandlers qfp)"
    by (simp add: Reset_def Let_def resetStatusHandlers_def)
  then have handlers: "\<exists>evs. statusHandlers (Reset qfp) =
            map (\<lambda>h. h @ ResetStatistics # evs) (statusHandlers qfp)"
    by blast
  have "\<not> isGlobalQuotaReached (Reset qfp)"
    by (simp add: isGlobalQuotaReached_def zero emptyQuota_def)
  moreover have "map_of (items (cacher (Reset qfp))) p = None"
    by (simp add: cleared)
  ultimately have "fst (Accumulate (Reset qfp) p sz) = True"
    by (simp add: Accumulate_def accumulate_absent)
  then show ?thesis
    using cleared zero handlers by (simp add: cacher_Keys_def emptyQuota_def)
qed

subsection \<open>The invariant of the quota records\<close>

lemma word_le_add_fits:
  "z \<le> x \<Longrightarrow> unat x + unat y < 2 ^ LENGTH('a) \<Longrightarrow> z \<le> x + y"
  for x y z :: "'a::len word"
  by (simp add: word_le_nat_alt unat_add_lem [THEN iffD1])

lemma word_add_le_fits:
  "z \<le> x \<Longrightarrow> unat x + unat y < 2 ^ LENGTH('a) \<Longrightarrow> z + y \<le> x + y"
  for x y z :: "'a::len word"
proof -
  assume le: "z \<le> x" and fits: "unat x + unat y < 2 ^ LENGTH('a)"
  have "unat z + unat y < 2 ^ LENGTH('a)"
    using le fits by (simp add: word_le_nat_alt)
  then have "unat (z + y) = unat z + unat y"
    by (rule unat_add_lem [THEN iffD1])
  moreover have "unat (x + y) = unat x + unat y"
    using fits by (rule unat_add_lem [THEN iffD1])
  ultimately show ?thesis
    using le by (simp add: word_le_nat_alt)
qed

lemma word_less_add_fits:
  "m < x \<Longrightarrow> unat x + unat y < 2 ^ LENGTH('a) \<Longrightarrow> m < x + y"
  for x y m :: "'a::len word"
  by (simp add: word_less_nat_alt unat_add_lem [THEN iffD1])

lemma receivedCoversProcessed_addReceived:
  "receivedCoversProcessed q \<Longrightarrow> receivedFits q sz \<Longrightarrow>
   receivedCoversProcessed (addReceived q sz)"
  by (simp add: receivedCoversProcessed_def receivedFits_def addReceived_def word_le_add_fits)

lemma receivedCoversProcessed_addProcessed:
  "receivedCoversProcessed q \<Longrightarrow> receivedFits q sz \<Longrightarrow>
   receivedCoversProcessed (addProcessed (addReceived q sz) sz)"
  by (simp add: receivedCoversProcessed_def receivedFits_def addReceived_def addProcessed_def
      word_add_le_fits)

lemma isPeerQuotaReached_addReceived:
  "isPeerQuotaReached qfp q \<Longrightarrow> receivedFits q sz \<Longrightarrow>
   isPeerQuotaReached qfp (addReceived q sz)"
  by (auto simp add: isPeerQuotaReached_def receivedFits_def addReceived_def
      intro: word_less_add_fits)

lemma quotaInvariant_iff:
  "quotaInvariant qfp \<longleftrightarrow>
     (\<forall>k a. (k, QuotaPtr a) \<in> set (items (cacher qfp)) \<longrightarrow>
            receivedCoversProcessed (quotas qfp ! a))"
  by (auto simp: quotaInvariant_def list_all_iff split: cacheValue.splits)

lemma peerFits_ptr:
  "peerFits qfp p sz \<Longrightarrow> map_of (items (cacher qfp)) p = Some (QuotaPtr a) \<Longrightarrow>
   receivedFits (quotas qfp ! a) sz"
  by (simp add: peerFits_def)

lemma quotaInvariant_putDefaultQuota:
  assumes wf: "wellFormed qfp" and inv: "quotaInvariant qfp"
  shows "quotaInvariant (putDefaultQuota qfp p sz)"
  unfolding quotaInvariant_iff
proof (intro allI impI)
  fix k a
  assume "(k, QuotaPtr a) \<in> set (items (cacher (putDefaultQuota qfp p sz)))"
  then have "(k, QuotaPtr a) \<in> insert (p, QuotaPtr (length (quotas qfp))) (set (items (cacher qfp)))"
    using cacher_Put_set [of "cacher qfp" p "QuotaPtr (length (quotas qfp))"]
    by (auto simp: putDefaultQuota_def)
  then consider "a = length (quotas qfp)" | "(k, QuotaPtr a) \<in> set (items (cacher qfp))"
    by auto
  then show "receivedCoversProcessed (quotas (putDefaultQuota qfp p sz) ! a)"
  proof cases
    case 1
    then show ?thesis
      by (simp add: putDefaultQuota_new receivedCoversProcessed_def)
  next
    case 2
    then have "a < length (quotas qfp)" using wf by (rule wellFormed_ptr_set [rotated])
    moreover have "receivedCoversProcessed (quotas qfp ! a)"
      using inv 2 by (auto simp: quotaInvariant_iff)
    ultimately show ?thesis by (simp add: putDefaultQuota_def nth_append)
  qed
qed

lemma quotaInvariant_refresh:
  assumes "quotaInvariant qfp"
  shows "quotaInvariant (qfp\<lparr>cacher := snd (cacher_Get (cacher qfp) p)\<rparr>)"
  using assms cacher_Get_set [of "cacher qfp" p]
  by (auto simp: quotaInvariant_iff)

lemma quotaInvariant_accumulate:
  assumes wf: "wellFormed qfp" and inv: "quotaInvariant qfp" and fits: "peerFits qfp p sz"
  shows "quotaInvariant (snd (accumulate qfp p sz))"
proof (cases rule: accumulate_cases [where qfp=qfp and p=p and sz=sz])
  case global
  then show ?thesis using inv by (simp add: accumulate_global)
next
  case absent
  then show ?thesis using wf inv by (simp add: accumulate_absent quotaInvariant_putDefaultQuota)
next
  case other
  then show ?thesis using wf inv
    by (simp add: accumulate_other quotaInvariant_putDefaultQuota wellFormed_refresh
        quotaInvariant_refresh)
next
  case (rejected a)
  have a_lt: "a < length (quotas qfp)" using wf rejected(2) by (rule wellFormed_ptr)
  have "(p, QuotaPtr a) \<in> set (items (cacher qfp))"
    using rejected(2) by (rule map_of_SomeD)
  then have "receivedCoversProcessed (quotas qfp ! a)"
    using inv by (auto simp: quotaInvariant_iff)
  then have new: "receivedCoversProcessed (addReceived (quotas qfp ! a) sz)"
    using peerFits_ptr [OF fits rejected(2)] by (rule receivedCoversProcessed_addReceived)
  show ?thesis
    unfolding quotaInvariant_iff
  proof (intro allI impI)
    fix k b
    assume "(k, QuotaPtr b) \<in> set (items (cacher (snd (accumulate qfp p sz))))"
    then have mem: "(k, QuotaPtr b) \<in> set (items (cacher qfp))"
      using rejected cacher_Get_set [of "cacher qfp" p] by (auto simp: accumulate_rejected)
    then have "receivedCoversProcessed (quotas qfp ! b)"
      using inv by (auto simp: quotaInvariant_iff)
    then show "receivedCoversProcessed (quotas (snd (accumulate qfp p sz)) ! b)"
      using rejected new a_lt by (cases "b = a") (simp_all add: accumulate_rejected)
  qed
next
  case (admitted a)
  have a_lt: "a < length (quotas qfp)" using wf admitted(2) by (rule wellFormed_ptr)
  have in_a: "(p, QuotaPtr a) \<in> set (items (cacher qfp))"
    using admitted(2) by (rule map_of_SomeD)
  then have old: "receivedCoversProcessed (quotas qfp ! a)"
    using inv by (auto simp: quotaInvariant_iff)
  then have new: "receivedCoversProcessed (addProcessed (addReceived (quotas qfp ! a) sz) sz)"
    using peerFits_ptr [OF fits admitted(2)] by (rule receivedCoversProcessed_addProcessed)
  show ?thesis
    unfolding quotaInvariant_iff
  proof (intro allI impI)
    fix k b
    assume "(k, QuotaPtr b) \<in> set (items (cacher (snd (accumulate qfp p sz))))"
    then have "(k, QuotaPtr b) \<in> insert (p, QuotaPtr a) (set (items (snd (cacher_Get (cacher qfp) p))))"
      using admitted cacher_Put_set [of "snd (cacher_Get (cacher qfp) p)" p "QuotaPtr a"]
      by (auto simp: accumulate_admitted)
    then have mem: "(k, QuotaPtr b) \<in> set (items (cacher qfp))"
      using in_a cacher_Get_set [of "cacher qfp" p] by auto
    then have "receivedCoversProcessed (quotas qfp ! b)"
      using inv by (auto simp: quotaInvariant_iff)
    then show "receivedCoversProcessed (quotas (snd (accumulate qfp p sz)) ! b)"
      using admitted new a_lt by (cases "b = a") (simp_all add: accumulate_admitted)
  qed
qed

lemma quotaInvariant_globalQuota:
  "quotaInvariant (qfp\<lparr>globalQuota := g\<rparr>) = quotaInvariant qfp"
  by (simp add: quotaInvariant_iff)

lemma peerFits_globalQuota:
  "peerFits (qfp\<lparr>globalQuota := g\<rparr>) p sz = peerFits qfp p sz"
  by (simp add: peerFits_def split: option.splits cacheValue.splits)

text \<open>
  Claim C4, amended. In a well-formed state where every quota record of the cache has
  received counters not below its processed counters, every call of \<open>Accumulate\<close>,
  \<open>AccumulateGlobal\<close> or \<open>Reset\<close> that does not wrap a received counter around (the
  count stays below \<open>2^32\<close>, the bytes below \<open>2^64\<close>) leads to a state with the same
  property.
\<close>

theorem quotaInvariant_preserved_without_overflow:
  assumes wf: "wellFormed qfp" and inv: "quotaInvariant qfp" and fits: "noOverflow qfp x"
  shows "quotaInvariant (snd (step qfp x)) \<and> wellFormed (snd (step qfp x))"
proof -
  have "quotaInvariant (snd (step qfp x))"
  proof (cases x)
    case (OpAccumulate p sz)
    then show ?thesis
      using quotaInvariant_accumulate [OF wf inv, of p sz] fits
      by (auto simp add: Accumulate_def split: prod.splits)
  next
    case (OpAccumulateGlobal p sz)
    let ?g = "qfp\<lparr>globalQuota := addReceived (globalQuota qfp) sz\<rparr>"
    have "quotaInvariant (snd (accumulate ?g p sz))"
      using wf inv fits OpAccumulateGlobal
      by (intro quotaInvariant_accumulate)
         (simp_all add: wellFormed_globalQuota quotaInvariant_globalQuota peerFits_globalQuota)
    then show ?thesis using OpAccumulateGlobal
      by (auto simp add: AccumulateGlobal_def quotaInvariant_globalQuota split: prod.splits)
  next
    case OpReset
    then show ?thesis
      by (simp add: quotaInvariant_def Reset_def Let_def cacher_Clear_def)
  qed
  then show ?thesis using wf by (simp add: wellFormed_step)
qed


lemmas scenario_eval =
  NewQuotaFloodPreventer_def newCacher_def minMessages_def minTotalSize_def emptyQuota_def
  Accumulate_def accumulate_def AccumulateGlobal_def isGlobalQuotaReached_def cacher_Get_def
  putDefaultQuota_def cacher_Put_def initNumMessages_def addReceived_def addProcessed_def
  isPeerQuotaReached_def wellFormed_def quotaInvariant_def receivedCoversProcessed_def
  receivedFits_def peerFits_def keepsEntry_def overBudget_def

text \<open>
  Claim C4 as stated fails. With 10 bytes per peer, after sizes 5 and 6 (the second call
  is rejected, the record is received 2 and 11, processed 1 and 5), a call of size
  \<open>2^64 - 11\<close> wraps the received bytes to 0, is admitted, and leaves received bytes 0
  below processed bytes \<open>2^64 - 6\<close>.
\<close>

theorem quotaInvariant_broken_by_wraparound:
  "snd (run scenarioTen [OpAccumulate ''P'' 5, OpAccumulate ''P'' 6]) = scenarioTenRejected \<and>
   wellFormed scenarioTenRejected \<and>
   quotaInvariant scenarioTenRejected \<and>
   fst (Accumulate scenarioTenRejected ''P'' 18446744073709551605) = True \<and>
   \<not> quotaInvariant (snd (Accumulate scenarioTenRejected ''P'' 18446744073709551605))"
  by (simp add: scenarioTen_def scenarioTenRejected_def scenario_eval)

theorem quotaInvariant_preserved_without_overflow_witness:
  "wellFormed scenarioTwoCalls \<and> quotaInvariant scenarioTwoCalls \<and>
   noOverflow scenarioTwoCalls (OpAccumulate ''P'' 40) \<and>
   quotaInvariant (snd (step scenarioTwoCalls (OpAccumulate ''P'' 40))) \<and>
   wellFormed (snd (step scenarioTwoCalls (OpAccumulate ''P'' 40)))"
proof -
  have wf: "wellFormed scenarioTwoCalls"
    by (simp add: wellFormed_def scenarioTwoCalls_def)
  have inv: "quotaInvariant scenarioTwoCalls"
    by (simp add: quotaInvariant_def receivedCoversProcessed_def scenarioTwoCalls_def)
  have fits: "noOverflow scenarioTwoCalls (OpAccumulate ''P'' 40)"
    by (simp add: peerFits_def receivedFits_def scenarioTwoCalls_def)
  show ?thesis
    using quotaInvariant_preserved_without_overflow [OF wf inv fits] wf inv fits by simp
qed

subsection \<open>A rejection is sticky while the record is undisturbed\<close>

lemma word_le_add_self_fits:
  "unat x + unat y < 2 ^ LENGTH('a) \<Longrightarrow> x \<le> x + y"
  for x y :: "'a::len word"
  by (rule word_le_add_fits) simp_all

lemma received_mono_addReceived:
  "receivedFits q sz \<Longrightarrow>
   numReceivedMessages q \<le> numReceivedMessages (addReceived q sz) \<and>
   sizeReceivedMessages q \<le> sizeReceivedMessages (addReceived q sz)"
  by (simp add: receivedFits_def addReceived_def word_le_add_self_fits)

lemma accumulate_received_mono:
  assumes wf: "wellFormed qfp" and fits: "peerFits qfp p sz" and b: "b < length (quotas qfp)"
  shows "numReceivedMessages (quotas qfp ! b)
           \<le> numReceivedMessages (quotas (snd (accumulate qfp p sz)) ! b) \<and>
         sizeReceivedMessages (quotas qfp ! b)
           \<le> sizeReceivedMessages (quotas (snd (accumulate qfp p sz)) ! b)"
proof (cases rule: accumulate_cases [where qfp=qfp and p=p and sz=sz])
  case global
  then show ?thesis by (simp add: accumulate_global)
next
  case absent
  then show ?thesis using b by (simp add: accumulate_absent putDefaultQuota_def nth_append)
next
  case other
  then show ?thesis using b by (simp add: accumulate_other putDefaultQuota_def nth_append)
next
  case (rejected a)
  show ?thesis
    using rejected b received_mono_addReceived [OF peerFits_ptr [OF fits rejected(2)]]
    by (cases "b = a") (simp_all add: accumulate_rejected)
next
  case (admitted a)
  show ?thesis
    using admitted b received_mono_addReceived [OF peerFits_ptr [OF fits admitted(2)]]
    by (cases "b = a") (simp_all add: accumulate_admitted addProcessed_def)
qed

lemma isPeerQuotaReached_mono:
  assumes "isPeerQuotaReached qfp q"
      and "numReceivedMessages q \<le> numReceivedMessages q1"
      and "sizeReceivedMessages q \<le> sizeReceivedMessages q1"
      and "maxMessagesPerPeer qfp1 = maxMessagesPerPeer qfp"
      and "maxSizePerPeer qfp1 = maxSizePerPeer qfp"
  shows "isPeerQuotaReached qfp1 q1"
  using assms by (auto simp: isPeerQuotaReached_def)

lemma overBudget_accumulate:
  assumes wf: "wellFormed qfp" and over: "overBudget qfp p" and fits: "peerFits qfp q sz"
      and keeps: "keepsEntry qfp p (snd (accumulate qfp q sz))"
  shows "overBudget (snd (accumulate qfp q sz)) p"
proof (cases "isGlobalQuotaReached qfp")
  case True
  then show ?thesis by (simp add: overBudget_def isGlobalQuotaReached_accumulate)
next
  case False
  then obtain a where a: "map_of (items (cacher qfp)) p = Some (QuotaPtr a)"
      and reached: "isPeerQuotaReached qfp (quotas qfp ! a)"
    using over by (auto simp: overBudget_def split: option.splits cacheValue.splits)
  have a_lt: "a < length (quotas qfp)" using wf a by (rule wellFormed_ptr)
  have kept: "map_of (items (cacher (snd (accumulate qfp q sz)))) p = Some (QuotaPtr a)"
    using keeps a by (simp add: keepsEntry_def)
  have m1: "numReceivedMessages (quotas qfp ! a)
              \<le> numReceivedMessages (quotas (snd (accumulate qfp q sz)) ! a)"
    and m2: "sizeReceivedMessages (quotas qfp ! a)
              \<le> sizeReceivedMessages (quotas (snd (accumulate qfp q sz)) ! a)"
    using accumulate_received_mono [OF wf fits a_lt] by simp_all
  have "isPeerQuotaReached (snd (accumulate qfp q sz)) (quotas (snd (accumulate qfp q sz)) ! a)"
    by (rule isPeerQuotaReached_mono [OF reached m1 m2]) (simp_all add: accumulate_frame)
  then show ?thesis using kept by (simp add: overBudget_def)
qed

lemma isPeerQuotaReached_globalQuota:
  "isPeerQuotaReached (qfp\<lparr>globalQuota := g\<rparr>) q = isPeerQuotaReached qfp q"
  by (simp add: isPeerQuotaReached_def)

lemma overBudget_globalQuota_received:
  assumes "overBudget qfp p" and "receivedFits (globalQuota qfp) sz"
  shows "overBudget (qfp\<lparr>globalQuota := addReceived (globalQuota qfp) sz\<rparr>) p"
proof (cases "isGlobalQuotaReached qfp")
  case True
  then have "isGlobalQuotaReached (qfp\<lparr>globalQuota := addReceived (globalQuota qfp) sz\<rparr>)"
    using assms(2)
    by (auto simp: isGlobalQuotaReached_def receivedFits_def addReceived_def
        intro: word_less_add_fits)
  then show ?thesis by (simp add: overBudget_def)
next
  case False
  then show ?thesis using assms(1)
    by (auto simp: overBudget_def isPeerQuotaReached_globalQuota
        split: option.splits cacheValue.splits)
qed

lemma overBudget_globalQuota_processed:
  "overBudget (qfp\<lparr>globalQuota := addProcessed (globalQuota qfp) sz\<rparr>) p = overBudget qfp p"
  by (auto simp: overBudget_def isGlobalQuotaReached_def addProcessed_def
      isPeerQuotaReached_globalQuota split: option.splits cacheValue.splits)

lemma keepsEntry_globalQuota:
  "keepsEntry (qfp\<lparr>globalQuota := g\<rparr>) p qfp1 = keepsEntry qfp p qfp1"
  "keepsEntry qfp p (qfp1\<lparr>globalQuota := g\<rparr>) = keepsEntry qfp p qfp1"
  by (simp_all add: keepsEntry_def split: option.splits cacheValue.splits)

lemma overBudget_step:
  assumes wf: "wellFormed qfp" and over: "overBudget qfp p"
      and noReset: "x \<noteq> OpReset" and fits: "noOverflow qfp x"
      and keeps: "keepsEntry qfp p (snd (step qfp x))"
  shows "overBudget (snd (step qfp x)) p"
proof (cases x)
  case (OpAccumulate q sz)
  have "keepsEntry qfp p (snd (accumulate qfp q sz))"
    using keeps OpAccumulate by (auto simp: Accumulate_def split: prod.splits)
  then have "overBudget (snd (accumulate qfp q sz)) p"
    using wf over fits OpAccumulate by (intro overBudget_accumulate) simp_all
  then show ?thesis using OpAccumulate by (auto simp: Accumulate_def split: prod.splits)
next
  case (OpAccumulateGlobal q sz)
  let ?g = "qfp\<lparr>globalQuota := addReceived (globalQuota qfp) sz\<rparr>"
  have wfg: "wellFormed ?g" using wf by (simp add: wellFormed_globalQuota)
  have overg: "overBudget ?g p"
    using over fits OpAccumulateGlobal by (intro overBudget_globalQuota_received) simp_all
  have fitsg: "peerFits ?g q sz"
    using fits OpAccumulateGlobal by (simp add: peerFits_globalQuota)
  have "keepsEntry qfp p (snd (accumulate ?g q sz))"
    using keeps OpAccumulateGlobal
    by (auto simp: AccumulateGlobal_def keepsEntry_globalQuota split: prod.splits if_splits)
  then have "keepsEntry ?g p (snd (accumulate ?g q sz))"
    by (simp add: keepsEntry_globalQuota)
  with wfg overg fitsg have "overBudget (snd (accumulate ?g q sz)) p"
    by (rule overBudget_accumulate)
  then show ?thesis using OpAccumulateGlobal
    by (auto simp: AccumulateGlobal_def overBudget_globalQuota_processed split: prod.splits)
next
  case OpReset
  with noReset show ?thesis by simp
qed

lemma overBudget_rejects:
  assumes "overBudget qfp p" and "peerFits qfp p sz"
  shows "fst (accumulate qfp p sz) = False"
proof (cases "isGlobalQuotaReached qfp")
  case True
  then show ?thesis by (simp add: accumulate_global)
next
  case False
  then obtain a where a: "map_of (items (cacher qfp)) p = Some (QuotaPtr a)"
      and reached: "isPeerQuotaReached qfp (quotas qfp ! a)"
    using assms(1) by (auto simp: overBudget_def split: option.splits cacheValue.splits)
  have "isPeerQuotaReached qfp (addReceived (quotas qfp ! a) sz)"
    using reached peerFits_ptr [OF assms(2) a] by (rule isPeerQuotaReached_addReceived)
  then show ?thesis using False a by (simp add: accumulate_rejected)
qed

lemma rejected_overBudget:
  assumes wf: "wellFormed qfp" and rej: "accumulate qfp p sz = (False, qfp1)"
  shows "overBudget qfp1 p"
proof (cases rule: accumulate_cases [where qfp=qfp and p=p and sz=sz])
  case global
  then show ?thesis using rej by (auto simp: accumulate_global overBudget_def)
next
  case absent
  then show ?thesis using rej by (simp add: accumulate_absent)
next
  case other
  then show ?thesis using rej by (simp add: accumulate_other)
next
  case (rejected a)
  have a_lt: "a < length (quotas qfp)" using wf rejected(2) by (rule wellFormed_ptr)
  have "qfp1 = qfp\<lparr>cacher := snd (cacher_Get (cacher qfp) p),
                    quotas := (quotas qfp)[a := addReceived (quotas qfp ! a) sz]\<rparr>"
    using rej rejected by (simp add: accumulate_rejected)
  then show ?thesis
    using rejected a_lt
    by (simp add: overBudget_def cacher_Get_map_of isPeerQuotaReached_def)
next
  case (admitted a)
  then show ?thesis using rej by (simp add: accumulate_admitted)
qed

lemma run_Cons_fst:
  "fst (run qfp (x # xs)) = fst (step qfp x) # fst (run (snd (step qfp x)) xs)"
  by (simp split: prod.splits)

lemma overBudget_sticky:
  assumes "wellFormed qfp" and "overBudget qfp p" and "undisturbed qfp p ops"
      and "i < length ops" and "ops ! i = OpAccumulate p sz"
  shows "fst (run qfp ops) ! i = Some False"
  using assms
proof (induction ops arbitrary: qfp i)
  case Nil
  then show ?case by simp
next
  case (Cons x xs)
  show ?case
  proof (cases i)
    case 0
    then have x: "x = OpAccumulate p sz" using Cons.prems(5) by simp
    then have "peerFits qfp p sz" using Cons.prems(3) by simp
    then have "fst (accumulate qfp p sz) = False"
      using Cons.prems(2) by (intro overBudget_rejects)
    then show ?thesis using 0 x
      by (cases "accumulate qfp p sz")
         (simp add: Accumulate_def run_Cons_fst del: run.simps)
  next
    case (Suc j)
    let ?qfp1 = "snd (step qfp x)"
    have "wellFormed ?qfp1" using Cons.prems(1) by (rule wellFormed_step)
    moreover have "overBudget ?qfp1 p"
      using Cons.prems(1,2,3) by (intro overBudget_step) simp_all
    moreover have "undisturbed ?qfp1 p xs" using Cons.prems(3) by simp
    moreover have "j < length xs" "xs ! j = OpAccumulate p sz"
      using Cons.prems(4,5) Suc by simp_all
    ultimately have "fst (run ?qfp1 xs) ! j = Some False"
      by (rule Cons.IH)
    then show ?thesis using Suc by (simp add: run_Cons_fst del: run.simps)
  qed
qed

text \<open>
  Claim C2, amended. Once a call \<open>Accumulate(p, s)\<close> has returned false, every later call
  \<open>Accumulate(p, s')\<close> returns false, for as long as the calls in between (any peers,
  \<open>Accumulate\<close> or \<open>AccumulateGlobal\<close>) contain no \<open>Reset\<close>, do not evict the
  record of \<open>p\<close> from the bounded cache, and do not wrap a received counter around.
\<close>

theorem rejection_sticky_while_undisturbed:
  assumes "wellFormed qfp"
      and "Accumulate qfp p sz = (False, qfp1)"
      and "undisturbed qfp1 p ops"
      and "i < length ops"
      and "ops ! i = OpAccumulate p sz1"
  shows "fst (run qfp1 ops) ! i = Some False"
proof -
  have rej: "accumulate qfp p sz = (False, qfp1)"
    using assms(2) by (simp add: Accumulate_def)
  have "wellFormed qfp1"
    using wellFormed_accumulate [OF assms(1), of p sz] rej by simp
  moreover have "overBudget qfp1 p"
    using assms(1) rej by (rule rejected_overBudget)
  ultimately show ?thesis
    using assms(3,4,5) by (rule overBudget_sticky)
qed


text \<open>
  Claim C2 as stated fails. With 10 bytes per peer, sizes 5 and 6 give true and false;
  a third call of size \<open>2^64 - 11\<close> for the same peer, with no \<open>Reset\<close> in between,
  wraps the received bytes from 11 to 0 and returns true.
\<close>

theorem rejection_not_sticky_after_wraparound:
  "fst (run scenarioTen
          [OpAccumulate ''P'' 5, OpAccumulate ''P'' 6, OpAccumulate ''P'' 18446744073709551605])
     = [Some True, Some False, Some True]"
  by (simp add: scenarioTen_def scenario_eval)

theorem rejection_sticky_while_undisturbed_witness:
  "wellFormed scenarioTwoCalls \<and>
   Accumulate scenarioTwoCalls ''P'' 40 = (False, scenarioRejected) \<and>
   undisturbed scenarioRejected ''P'' [OpAccumulate ''Q'' 1, OpAccumulate ''P'' 1] \<and>
   (1::nat) < length [OpAccumulate ''Q'' 1, OpAccumulate ''P'' 1] \<and>
   [OpAccumulate ''Q'' 1, OpAccumulate ''P'' 1] ! 1 = OpAccumulate ''P'' 1 \<and>
   fst (run scenarioRejected [OpAccumulate ''Q'' 1, OpAccumulate ''P'' 1]) ! 1 = Some False"
proof -
  have wf: "wellFormed scenarioTwoCalls"
    by (simp add: wellFormed_def scenarioTwoCalls_def)
  have rej: "Accumulate scenarioTwoCalls ''P'' 40 = (False, scenarioRejected)"
    by (simp add: scenarioTwoCalls_def scenarioRejected_def scenario_eval)
  have und: "undisturbed scenarioRejected ''P'' [OpAccumulate ''Q'' 1, OpAccumulate ''P'' 1]"
    by (simp add: scenarioRejected_def scenario_eval)
  have i: "(1::nat) < length [OpAccumulate ''Q'' 1, OpAccumulate ''P'' 1]" by simp
  have at: "[OpAccumulate ''Q'' 1, OpAccumulate ''P'' 1] ! 1 = OpAccumulate ''P'' 1" by simp
  show ?thesis
    using rejection_sticky_while_undisturbed [OF wf rej und i at] wf rej und by simp
qed

text \<open>
  The two provisos on the cache and on the calls are needed. With 2 messages and 100
  bytes per peer, three calls of 40 bytes give true, true and false. Over a cache of
  one entry, a call of another peer evicts the rejected record and the peer is admitted
  again.
\<close>

lemma scenario_three_calls:
  "fst (run scenarioFresh
          [OpAccumulate ''P'' 40, OpAccumulate ''P'' 40, OpAccumulate ''P'' 40])
     = [Some True, Some True, Some False]"
  by (simp add: scenarioFresh_def scenario_eval)

lemma rejection_not_sticky_after_eviction:
  "fst (run scenarioSmallCache
          [OpAccumulate ''P'' 1, OpAccumulate ''P'' 1, OpAccumulate ''Q'' 1, OpAccumulate ''P'' 1])
     = [Some True, Some False, Some True, Some True]"
  by (simp add: scenarioSmallCache_def scenario_eval)

subsection \<open>The first call of an unknown peer\<close>

text \<open>
  Claim C5, amended. For a peer absent from a cache with room for at least one entry,
  while the global quota is not exceeded, \<open>Accumulate(p, size)\<close> returns true and
  caches for the peer a new record with received and processed counters 1 and
  \<open>size\<close>, even when \<open>size\<close> exceeds the maximum size per peer; in that oversized case
  every later \<open>Accumulate\<close> of the peer returns false for as long as the calls in
  between contain no \<open>Reset\<close>, do not evict the record and do not wrap a received
  counter around.
\<close>

theorem unknown_peer_admitted_once:
  assumes wf: "wellFormed qfp"
      and absent: "map_of (items (cacher qfp)) p = None"
      and glob: "\<not> isGlobalQuotaReached qfp"
      and room: "0 < maxEntries (cacher qfp)"
      and call: "Accumulate qfp p sz = (admitted, qfp1)"
  shows "admitted \<and>
         map_of (items (cacher qfp1)) p = Some (QuotaPtr (length (quotas qfp))) \<and>
         quotas qfp1 ! length (quotas qfp) =
           \<lparr>numReceivedMessages = 1, sizeReceivedMessages = sz,
            numProcessedMessages = 1, sizeProcessedMessages = sz\<rparr> \<and>
         (maxSizePerPeer qfp < sz \<and> undisturbed qfp1 p ops \<and>
          i < length ops \<and> ops ! i = OpAccumulate p sz1
            \<longrightarrow> fst (run qfp1 ops) ! i = Some False)"
proof -
  have eq: "admitted = True" "qfp1 = putDefaultQuota qfp p sz"
    using call glob absent by (simp_all add: Accumulate_def accumulate_absent)
  have look: "map_of (items (cacher qfp1)) p = Some (QuotaPtr (length (quotas qfp)))"
    using room by (simp add: eq putDefaultQuota_def cacher_Put_same)
  have new: "quotas qfp1 ! length (quotas qfp) =
           \<lparr>numReceivedMessages = 1, sizeReceivedMessages = sz,
            numProcessedMessages = 1, sizeProcessedMessages = sz\<rparr>"
    by (simp add: eq putDefaultQuota_new)
  have wf1: "wellFormed qfp1"
    using wf by (simp add: eq wellFormed_putDefaultQuota)
  have sticky: "fst (run qfp1 ops) ! i = Some False"
    if "maxSizePerPeer qfp < sz" "undisturbed qfp1 p ops" "i < length ops"
       "ops ! i = OpAccumulate p sz1"
  proof -
    have "isPeerQuotaReached qfp1 (quotas qfp1 ! length (quotas qfp))"
      using that(1) by (simp add: new isPeerQuotaReached_def) (simp add: eq putDefaultQuota_def)
    then have "overBudget qfp1 p"
      using look by (simp add: overBudget_def)
    with wf1 show ?thesis
      using that(2,3,4) by (rule overBudget_sticky)
  qed
  show ?thesis
    using eq(1) look new sticky by blast
qed

text \<open>
  Claim C5 as stated fails. With 10 bytes per peer, a first call of size 11 is admitted;
  a second call of size \<open>2^64 - 11\<close> wraps the received bytes to 0 and returns true.
\<close>

theorem oversized_first_call_not_sticky_after_wraparound:
  "map_of (items (cacher scenarioTen)) ''P'' = None \<and>
   maxSizePerPeer scenarioTen < 11 \<and>
   Accumulate scenarioTen ''P'' 11 = (True, scenarioOversized) \<and>
   fst (Accumulate scenarioOversized ''P'' 18446744073709551605) = True"
  by (simp add: scenarioTen_def scenarioOversized_def scenario_eval)

theorem unknown_peer_admitted_once_witness:
  "wellFormed scenarioTen \<and>
   map_of (items (cacher scenarioTen)) ''P'' = None \<and>
   \<not> isGlobalQuotaReached scenarioTen \<and>
   0 < maxEntries (cacher scenarioTen) \<and>
   Accumulate scenarioTen ''P'' 11 = (True, scenarioOversized) \<and>
   maxSizePerPeer scenarioTen < 11 \<and>
   undisturbed scenarioOversized ''P'' [OpAccumulate ''Q'' 3, OpAccumulate ''P'' 1] \<and>
   map_of (items (cacher scenarioOversized)) ''P'' = Some (QuotaPtr 0) \<and>
   quotas scenarioOversized ! 0 =
     \<lparr>numReceivedMessages = 1, sizeReceivedMessages = 11,
      numProcessedMessages = 1, sizeProcessedMessages = 11\<rparr> \<and>
   fst (run scenarioOversized [OpAccumulate ''Q'' 3, OpAccumulate ''P'' 1]) ! 1 = Some False"
proof -
  have wf: "wellFormed scenarioTen"
    by (simp add: scenarioTen_def scenario_eval)
  have absent: "map_of (items (cacher scenarioTen)) ''P'' = None"
    by (simp add: scenarioTen_def scenario_eval)
  have glob: "\<not> isGlobalQuotaReached scenarioTen"
    by (simp add: scenarioTen_def scenario_eval)
  have room: "0 < maxEntries (cacher scenarioTen)"
    by (simp add: scenarioTen_def scenario_eval)
  have call: "Accumulate scenarioTen ''P'' 11 = (True, scenarioOversized)"
    by (simp add: scenarioTen_def scenarioOversized_def scenario_eval)
  have big: "maxSizePerPeer scenarioTen < 11"
    by (simp add: scenarioTen_def)
  have und: "undisturbed scenarioOversized ''P'' [OpAccumulate ''Q'' 3, OpAccumulate ''P'' 1]"
    by (simp add: scenarioOversized_def scenario_eval)
  have len: "quotas scenarioTen = []"
    by (simp add: scenarioTen_def)
  show ?thesis
    using unknown_peer_admitted_once [OF wf absent glob room call,
        of "[OpAccumulate ''Q'' 3, OpAccumulate ''P'' 1]" 1 1]
      wf absent glob room call big und
    by (simp add: len)
qed

section \<open>Properties of the transaction pools cleaner\<close>

subsection \<open>The reaper pass\<close>

lemma expired_iff_not_kept:
  "expired maxRounds index info \<longleftrightarrow> \<not> (index - round info \<le>s maxRounds)"
  by (auto simp: expired_def)

lemma txStore_Remove_other_key:
  "k \<noteq> h \<Longrightarrow> caches (txStore_Remove pools s h) s1 k = caches pools s1 k"
  by (simp add: txStore_Remove_def)

lemma txStore_Remove_same:
  "caches (txStore_Remove pools s h) s h = None"
  by (simp add: txStore_Remove_def)

lemma txStore_Remove_calls:
  "removeCalls (txStore_Remove pools s h) = removeCalls pools @ [(s, h)]"
  by (simp add: txStore_Remove_def)

text \<open>A hash that the loop does not visit keeps its record, its pooled entries and its calls.\<close>

lemma cleanTxs_untouched:
  assumes "k \<notin> fst ` set es"
      and "cleanTxs maxRounds index es (m, pools, n) = (m1, pools1, n1)"
  shows "map_of m1 k = map_of m k \<and>
         (\<forall>s. caches pools1 s k = caches pools s k) \<and>
         (\<exists>new. removeCalls pools1 = removeCalls pools @ new \<and> k \<notin> snd ` set new)"
  using assms
proof (induction es arbitrary: m pools n)
  case Nil
  then show ?case by simp
next
  case (Cons e es)
  obtain h i where e: "e = (h, i)" by (cases e)
  have hk: "h \<noteq> k" and rest: "k \<notin> fst ` set es"
    using Cons.prems(1) e by auto
  show ?case
  proof (cases "txStore_Get pools (txStore i) h")
    case None
    then have "cleanTxs maxRounds index es (filter (\<lambda>e. fst e \<noteq> h) m, pools, n) = (m1, pools1, n1)"
      using Cons.prems(2) e by simp
    from Cons.IH [OF rest this] show ?thesis
      using hk by (simp add: map_of_filter_other)
  next
    case (Some v)
    show ?thesis
    proof (cases "index - round i \<le>s maxRounds")
      case True
      then have "cleanTxs maxRounds index es (m, pools, n) = (m1, pools1, n1)"
        using Cons.prems(2) e Some by simp
      from Cons.IH [OF rest this] show ?thesis .
    next
      case False
      then have "cleanTxs maxRounds index es
                   (filter (\<lambda>e. fst e \<noteq> h) m, txStore_Remove pools (txStore i) h, n + 1)
                 = (m1, pools1, n1)"
        using Cons.prems(2) e Some by simp
      from Cons.IH [OF rest this] obtain new where
        a: "map_of m1 k = map_of (filter (\<lambda>e. fst e \<noteq> h) m) k"
        and b: "\<forall>s. caches pools1 s k = caches (txStore_Remove pools (txStore i) h) s k"
        and c: "removeCalls pools1 = removeCalls (txStore_Remove pools (txStore i) h) @ new"
               "k \<notin> snd ` set new"
        by blast
      have "removeCalls pools1 = removeCalls pools @ ((txStore i, h) # new)"
        using c(1) by (simp add: txStore_Remove_calls)
      moreover have "k \<notin> snd ` set ((txStore i, h) # new)"
        using c(2) hk by simp
      ultimately have "\<exists>new. removeCalls pools1 = removeCalls pools @ new \<and> k \<notin> snd ` set new"
        by blast
      then show ?thesis
        using a b hk by (simp add: map_of_filter_other txStore_Remove_other_key)
    qed
  qed
qed

text \<open>What the loop does for a record it visits, by the three cases of the source.\<close>

lemma cleanTxs_visited:
  assumes "distinct (map fst es)"
      and "(hash, info) \<in> set es"
      and "cleanTxs maxRounds index es (m, pools, n) = (m1, pools1, n1)"
  shows "(txStore_Get pools (txStore info) hash = None \<longrightarrow>
            map_of m1 hash = None \<and>
            (\<forall>s. caches pools1 s hash = caches pools s hash) \<and>
            (\<exists>new. removeCalls pools1 = removeCalls pools @ new \<and> hash \<notin> snd ` set new)) \<and>
         (txStore_Get pools (txStore info) hash \<noteq> None \<and> \<not> expired maxRounds index info \<longrightarrow>
            map_of m1 hash = map_of m hash \<and>
            (\<forall>s. caches pools1 s hash = caches pools s hash) \<and>
            (\<exists>new. removeCalls pools1 = removeCalls pools @ new \<and> hash \<notin> snd ` set new)) \<and>
         (txStore_Get pools (txStore info) hash \<noteq> None \<and> expired maxRounds index info \<longrightarrow>
            map_of m1 hash = None \<and>
            caches pools1 (txStore info) hash = None \<and>
            (\<exists>new. removeCalls pools1 = removeCalls pools @ new \<and>
                   (txStore info, hash) \<in> set new))"
  using assms
proof (induction es arbitrary: m pools n)
  case Nil
  then show ?case by simp
next
  case (Cons e es)
  obtain h i where e: "e = (h, i)" by (cases e)
  have dist: "distinct (map fst es)" and fresh: "h \<notin> fst ` set es"
    using Cons.prems(1) e by auto
  show ?case
  proof (cases "(hash, info) = (h, i)")
    case True
    then have hi: "h = hash" "i = info" by simp_all
    have rest: "hash \<notin> fst ` set es" using fresh hi by simp
    show ?thesis
    proof (cases "txStore_Get pools (txStore info) hash")
      case None
      then have "cleanTxs maxRounds index es (filter (\<lambda>e. fst e \<noteq> hash) m, pools, n)
                   = (m1, pools1, n1)"
        using Cons.prems(3) e hi by simp
      from cleanTxs_untouched [OF rest this] show ?thesis
        using None by (simp add: map_of_filter_same)
    next
      case (Some v)
      show ?thesis
      proof (cases "expired maxRounds index info")
        case False
        then have "cleanTxs maxRounds index es (m, pools, n) = (m1, pools1, n1)"
          using Cons.prems(3) e hi Some by (simp add: expired_iff_not_kept)
        from cleanTxs_untouched [OF rest this] show ?thesis
          using Some False by simp
      next
        case True
        then have "cleanTxs maxRounds index es
                     (filter (\<lambda>e. fst e \<noteq> hash) m, txStore_Remove pools (txStore info) hash, n + 1)
                   = (m1, pools1, n1)"
          using Cons.prems(3) e hi Some by (simp add: expired_iff_not_kept)
        from cleanTxs_untouched [OF rest this] obtain new where
          a: "map_of m1 hash = map_of (filter (\<lambda>e. fst e \<noteq> hash) m) hash"
          and b: "\<forall>s. caches pools1 s hash = caches (txStore_Remove pools (txStore info) hash) s hash"
          and c: "removeCalls pools1 = removeCalls (txStore_Remove pools (txStore info) hash) @ new"
          by blast
        have "removeCalls pools1 = removeCalls pools @ ((txStore info, hash) # new)"
          using c by (simp add: txStore_Remove_calls)
        then have "\<exists>new. removeCalls pools1 = removeCalls pools @ new \<and>
                     (txStore info, hash) \<in> set new"
          by (metis list.set_intros(1))
        then show ?thesis
          using a b Some True by (simp add: map_of_filter_same txStore_Remove_same)
      qed
    qed
  next
    case False
    then have mem: "(hash, info) \<in> set es" using Cons.prems(2) e by auto
    then have hh: "h \<noteq> hash" using fresh by force
    show ?thesis
    proof (cases "txStore_Get pools (txStore i) h")
      case None
      then have "cleanTxs maxRounds index es (filter (\<lambda>e. fst e \<noteq> h) m, pools, n)
                   = (m1, pools1, n1)"
        using Cons.prems(3) e by simp
      from Cons.IH [OF dist mem this] show ?thesis
        using hh by (simp add: map_of_filter_other)
    next
      case (Some v)
      show ?thesis
      proof (cases "index - round i \<le>s maxRounds")
        case True
        then have "cleanTxs maxRounds index es (m, pools, n) = (m1, pools1, n1)"
          using Cons.prems(3) e Some by simp
        from Cons.IH [OF dist mem this] show ?thesis .
      next
        case False
        let ?p = "txStore_Remove pools (txStore i) h"
        have step: "cleanTxs maxRounds index es (filter (\<lambda>e. fst e \<noteq> h) m, ?p, n + 1)
                   = (m1, pools1, n1)"
          using False Cons.prems(3) e Some by simp
        have same: "\<And>s. caches ?p s hash = caches pools s hash"
          using hh by (simp add: txStore_Remove_other_key)
        have calls: "\<And>new. removeCalls pools1 = removeCalls ?p @ new \<Longrightarrow>
                      removeCalls pools1 = removeCalls pools @ ((txStore i, h) # new)"
          by (simp add: txStore_Remove_calls)
        have notin: "\<And>new. hash \<notin> snd ` set new \<Longrightarrow> hash \<notin> snd ` set ((txStore i, h) # new)"
          using hh by simp
        have isin: "\<And>new. (txStore info, hash) \<in> set new \<Longrightarrow>
                      (txStore info, hash) \<in> set ((txStore i, h) # new)"
          by simp
        from Cons.IH [OF dist mem step] show ?thesis
          using hh same
          by (simp add: map_of_filter_other txStore_Get_def) (meson calls notin isin)
      qed
    qed
  qed
qed


lemma cleanTxs_count:
  assumes "distinct (map fst es)"
      and "cleanTxs maxRounds index es (m, pools, n) = (m1, pools1, n1)"
  shows "n1 = n + length (filter (\<lambda>e. txStore_Get pools (txStore (snd e)) (fst e) \<noteq> None \<and>
                                     expired maxRounds index (snd e)) es)"
  using assms
proof (induction es arbitrary: m pools n)
  case Nil
  then show ?case by simp
next
  case (Cons e es)
  obtain h i where e: "e = (h, i)" by (cases e)
  have dist: "distinct (map fst es)" and fresh: "h \<notin> fst ` set es"
    using Cons.prems(1) e by auto
  show ?case
  proof (cases "txStore_Get pools (txStore i) h")
    case None
    then have "cleanTxs maxRounds index es (filter (\<lambda>e. fst e \<noteq> h) m, pools, n) = (m1, pools1, n1)"
      using Cons.prems(2) e by simp
    from Cons.IH [OF dist this] show ?thesis using None e by simp
  next
    case (Some v)
    show ?thesis
    proof (cases "index - round i \<le>s maxRounds")
      case True
      then have "cleanTxs maxRounds index es (m, pools, n) = (m1, pools1, n1)"
        using Cons.prems(2) e Some by simp
      from Cons.IH [OF dist this] show ?thesis
        using True e by (simp add: expired_iff_not_kept)
    next
      case False
      let ?p = "txStore_Remove pools (txStore i) h"
      have "cleanTxs maxRounds index es (filter (\<lambda>e. fst e \<noteq> h) m, ?p, n + 1) = (m1, pools1, n1)"
        using False Cons.prems(2) e Some by simp
      from Cons.IH [OF dist this]
      have n1: "n1 = n + 1 + length (filter (\<lambda>e. txStore_Get ?p (txStore (snd e)) (fst e) \<noteq> None \<and>
                                     expired maxRounds index (snd e)) es)" .
      have "filter (\<lambda>e. txStore_Get ?p (txStore (snd e)) (fst e) \<noteq> None \<and>
                         expired maxRounds index (snd e)) es
          = filter (\<lambda>e. txStore_Get pools (txStore (snd e)) (fst e) \<noteq> None \<and>
                         expired maxRounds index (snd e)) es"
      proof (rule filter_cong [OF refl])
        fix x assume "x \<in> set es"
        then have "fst x \<noteq> h" using fresh by auto
        then show "(txStore_Get ?p (txStore (snd x)) (fst x) \<noteq> None \<and> expired maxRounds index (snd x))
               = (txStore_Get pools (txStore (snd x)) (fst x) \<noteq> None \<and> expired maxRounds index (snd x))"
          by (simp add: txStore_Get_def txStore_Remove_other_key)
      qed
      then show ?thesis
        using n1 False Some e by (simp add: expired_iff_not_kept)
    qed
  qed
qed

lemma cleanTxsPoolsIfNeeded_result:
  assumes "cleanTxsPoolsIfNeeded maxRounds tpc pools = (numTxsInMap, tpc1, pools1, numTxsCleaned)"
  shows "cleanTxs maxRounds (rounder tpc) (mapTxsRounds tpc) (mapTxsRounds tpc, pools, 0)
           = (mapTxsRounds tpc1, pools1, numTxsCleaned) \<and>
         numTxsInMap = length (mapTxsRounds tpc1)"
  using assms by (auto simp: cleanTxsPoolsIfNeeded_def split: prod.splits)

text \<open>For rounds that are not negative the int64 difference is the difference of the rounds.\<close>

lemma roundDif_exact:
  fixes index arrival :: int64
  assumes "0 \<le> sint index" and "0 \<le> sint arrival"
  shows "sint (index - arrival) = sint index - sint arrival"
proof -
  have "sint index < 2 ^ 63" "sint arrival < 2 ^ 63"
    using sint_lt [of index] sint_lt [of arrival] by simp_all
  then have "- (2 ^ 63) \<le> sint index - sint arrival" "sint index - sint arrival < 2 ^ 63"
    using assms by simp_all
  then have "signed_take_bit 63 (sint index - sint arrival) = sint index - sint arrival"
    by (intro signed_take_bit_int_eq_self) simp_all
  then show ?thesis by (simp add: sint_word_ariths)
qed

lemma expired_nonnegative_rounds:
  assumes "0 \<le> sint index" and "0 \<le> sint (round info)"
  shows "expired maxRounds index info \<longleftrightarrow> sint maxRounds < sint index - sint (round info)"
  using roundDif_exact [OF assms] by (simp add: expired_def word_sless_alt)

text \<open>
  Claim C6. In one pass, for a record of the map whose hash is still in its sub-cache:
  when the record is stale, that is \<open>Index() - round > MaxRoundsToKeepUnprocessedTransactions\<close>
  for the int64 difference the source computes, the hash is removed from its sub-cache
  by a \<open>Remove\<close> call and the record is deleted; otherwise the record stays as it is,
  no sub-cache changes at this hash and no \<open>Remove\<close> is called for it. The number of
  cleanups is the number of records that are pooled and stale, and the value returned is
  the size of the map after the pass. The records are visited in any order.
\<close>

theorem reaper_removes_exactly_stale:
  assumes "distinct (map fst (mapTxsRounds tpc))"
      and "(hash, info) \<in> set (mapTxsRounds tpc)"
      and "txStore_Get pools (txStore info) hash \<noteq> None"
      and "cleanTxsPoolsIfNeeded maxRounds tpc pools = (numTxsInMap, tpc1, pools1, numTxsCleaned)"
  shows "(expired maxRounds (rounder tpc) info \<longrightarrow>
            txStore_Get pools1 (txStore info) hash = None \<and>
            map_of (mapTxsRounds tpc1) hash = None \<and>
            (\<exists>new. removeCalls pools1 = removeCalls pools @ new \<and>
                   (txStore info, hash) \<in> set new)) \<and>
         (\<not> expired maxRounds (rounder tpc) info \<longrightarrow>
            map_of (mapTxsRounds tpc1) hash = Some info \<and>
            (\<forall>s. txStore_Get pools1 s hash = txStore_Get pools s hash) \<and>
            (\<exists>new. removeCalls pools1 = removeCalls pools @ new \<and> hash \<notin> snd ` set new)) \<and>
         numTxsCleaned =
           length (filter (\<lambda>e. txStore_Get pools (txStore (snd e)) (fst e) \<noteq> None \<and>
                               expired maxRounds (rounder tpc) (snd e)) (mapTxsRounds tpc)) \<and>
         numTxsInMap = length (mapTxsRounds tpc1)"
proof -
  note res = cleanTxsPoolsIfNeeded_result [OF assms(4)]
  have loop: "cleanTxs maxRounds (rounder tpc) (mapTxsRounds tpc) (mapTxsRounds tpc, pools, 0)
           = (mapTxsRounds tpc1, pools1, numTxsCleaned)"
    using res by simp
  have before: "map_of (mapTxsRounds tpc) hash = Some info"
    using assms(1,2) by simp
  show ?thesis
    using cleanTxs_visited [OF assms(1,2) loop] cleanTxs_count [OF assms(1) loop]
      assms(3) before res
    by (simp add: txStore_Get_def)
qed

text \<open>
  Claim C7. In one pass, a record whose hash is no longer in its sub-cache is deleted
  from the map; the pass calls \<open>Remove\<close> on no sub-cache for this hash, leaves every
  sub-cache as it was at this hash, and counts as cleanups only pooled and stale records
  among the others.
\<close>

theorem reaper_drops_record_of_absent_hash:
  assumes "distinct (map fst (mapTxsRounds tpc))"
      and "(hash, info) \<in> set (mapTxsRounds tpc)"
      and "txStore_Get pools (txStore info) hash = None"
      and "cleanTxsPoolsIfNeeded maxRounds tpc pools = (numTxsInMap, tpc1, pools1, numTxsCleaned)"
  shows "map_of (mapTxsRounds tpc1) hash = None \<and>
         (\<exists>new. removeCalls pools1 = removeCalls pools @ new \<and> hash \<notin> snd ` set new) \<and>
         (\<forall>s. txStore_Get pools1 s hash = txStore_Get pools s hash) \<and>
         numTxsCleaned =
           length (filter (\<lambda>e. txStore_Get pools (txStore (snd e)) (fst e) \<noteq> None \<and>
                               expired maxRounds (rounder tpc) (snd e))
                     (filter (\<lambda>e. fst e \<noteq> hash) (mapTxsRounds tpc)))"
proof -
  note res = cleanTxsPoolsIfNeeded_result [OF assms(4)]
  have loop: "cleanTxs maxRounds (rounder tpc) (mapTxsRounds tpc) (mapTxsRounds tpc, pools, 0)
           = (mapTxsRounds tpc1, pools1, numTxsCleaned)"
    using res by simp
  have only: "\<And>e. e \<in> set (mapTxsRounds tpc) \<Longrightarrow> fst e = hash \<Longrightarrow> snd e = info"
    using assms(1,2) by (metis map_of_eq_Some_iff option.inject prod.collapse)
  have "filter (\<lambda>e. txStore_Get pools (txStore (snd e)) (fst e) \<noteq> None \<and>
                     expired maxRounds (rounder tpc) (snd e))
          (filter (\<lambda>e. fst e \<noteq> hash) (mapTxsRounds tpc))
      = filter (\<lambda>e. txStore_Get pools (txStore (snd e)) (fst e) \<noteq> None \<and>
                     expired maxRounds (rounder tpc) (snd e)) (mapTxsRounds tpc)"
    unfolding filter_filter
  proof (rule filter_cong [OF refl])
    fix e assume "e \<in> set (mapTxsRounds tpc)"
    then show "(fst e \<noteq> hash \<and> txStore_Get pools (txStore (snd e)) (fst e) \<noteq> None \<and>
                 expired maxRounds (rounder tpc) (snd e))
             = (txStore_Get pools (txStore (snd e)) (fst e) \<noteq> None \<and>
                 expired maxRounds (rounder tpc) (snd e))"
      using only [of e] assms(3) by auto
  qed
  then show ?thesis
    using cleanTxs_visited [OF assms(1,2) loop] cleanTxs_count [OF assms(1) loop] assms(3)
    by (simp add: txStore_Get_def)
qed

subsection \<open>Examples of a pass\<close>

text \<open>The record of the examples is the one the callback stores at round 100.\<close>

lemma scenario_emitted:
  "receivedBlockTx (\<lambda>sender receiver. ''0'') (scenarioCleaner 100 []) (Some ''H'')
     (WrappedTransaction \<lparr>GetSndAddr = [1, 2, 3, 4], GetRcvAddr = [5, 6, 7, 8]\<rparr> 0 0)
   = scenarioCleaner 100 [(''H'', scenarioInfo)]"
  by (simp add: receivedBlockTx_def processReceivedTx_def getTransactionPool_def
      scenarioCleaner_def scenarioInfo_def)

theorem reaper_removes_exactly_stale_witness:
  "distinct (map fst (mapTxsRounds (scenarioCleaner 106 [(''H'', scenarioInfo)]))) \<and>
   (''H'', scenarioInfo) \<in> set (mapTxsRounds (scenarioCleaner 106 [(''H'', scenarioInfo)])) \<and>
   txStore_Get (scenarioPools [''H'' \<mapsto> OtherPoolValue]) (txStore scenarioInfo) ''H'' \<noteq> None \<and>
   expired 5 (rounder (scenarioCleaner 106 [(''H'', scenarioInfo)])) scenarioInfo \<and>
   cleanTxsPoolsIfNeeded 5 (scenarioCleaner 106 [(''H'', scenarioInfo)])
       (scenarioPools [''H'' \<mapsto> OtherPoolValue])
     = (0, scenarioCleaner 106 [],
        txStore_Remove (scenarioPools [''H'' \<mapsto> OtherPoolValue]) 0 ''H'', 1) \<and>
   txStore_Get (txStore_Remove (scenarioPools [''H'' \<mapsto> OtherPoolValue]) 0 ''H'')
     (txStore scenarioInfo) ''H'' = None \<and>
   map_of (mapTxsRounds (scenarioCleaner 106 [])) ''H'' = None"
proof -
  have d: "distinct (map fst (mapTxsRounds (scenarioCleaner 106 [(''H'', scenarioInfo)])))"
    by (simp add: scenarioCleaner_def)
  have m: "(''H'', scenarioInfo) \<in> set (mapTxsRounds (scenarioCleaner 106 [(''H'', scenarioInfo)]))"
    by (simp add: scenarioCleaner_def)
  have p: "txStore_Get (scenarioPools [''H'' \<mapsto> OtherPoolValue]) (txStore scenarioInfo) ''H'' \<noteq> None"
    by (simp add: txStore_Get_def scenarioPools_def scenarioInfo_def)
  have e: "expired 5 (rounder (scenarioCleaner 106 [(''H'', scenarioInfo)])) scenarioInfo"
    by (simp add: expired_def scenarioCleaner_def scenarioInfo_def word_sless_alt)
  have r: "cleanTxsPoolsIfNeeded 5 (scenarioCleaner 106 [(''H'', scenarioInfo)])
       (scenarioPools [''H'' \<mapsto> OtherPoolValue])
     = (0, scenarioCleaner 106 [],
        txStore_Remove (scenarioPools [''H'' \<mapsto> OtherPoolValue]) 0 ''H'', 1)"
    by (simp add: cleanTxsPoolsIfNeeded_def scenarioCleaner_def scenarioInfo_def
        scenarioPools_def txStore_Get_def word_sle_eq)
  show ?thesis
    using reaper_removes_exactly_stale [OF d m p r] d m p e r by simp
qed

theorem reaper_drops_record_of_absent_hash_witness:
  "distinct (map fst (mapTxsRounds (scenarioCleaner 104 [(''H'', scenarioInfo)]))) \<and>
   (''H'', scenarioInfo) \<in> set (mapTxsRounds (scenarioCleaner 104 [(''H'', scenarioInfo)])) \<and>
   txStore_Get (scenarioPools Map.empty) (txStore scenarioInfo) ''H'' = None \<and>
   cleanTxsPoolsIfNeeded 5 (scenarioCleaner 104 [(''H'', scenarioInfo)]) (scenarioPools Map.empty)
     = (0, scenarioCleaner 104 [], scenarioPools Map.empty, 0) \<and>
   map_of (mapTxsRounds (scenarioCleaner 104 [])) ''H'' = None \<and>
   (\<exists>new. removeCalls (scenarioPools Map.empty) = removeCalls (scenarioPools Map.empty) @ new \<and>
          ''H'' \<notin> snd ` set new)"
proof -
  have d: "distinct (map fst (mapTxsRounds (scenarioCleaner 104 [(''H'', scenarioInfo)])))"
    by (simp add: scenarioCleaner_def)
  have m: "(''H'', scenarioInfo) \<in> set (mapTxsRounds (scenarioCleaner 104 [(''H'', scenarioInfo)]))"
    by (simp add: scenarioCleaner_def)
  have p: "txStore_Get (scenarioPools Map.empty) (txStore scenarioInfo) ''H'' = None"
    by (simp add: txStore_Get_def scenarioPools_def scenarioInfo_def)
  have r: "cleanTxsPoolsIfNeeded 5 (scenarioCleaner 104 [(''H'', scenarioInfo)])
       (scenarioPools Map.empty) = (0, scenarioCleaner 104 [], scenarioPools Map.empty, 0)"
    by (simp add: cleanTxsPoolsIfNeeded_def scenarioCleaner_def scenarioInfo_def
        scenarioPools_def txStore_Get_def)
  show ?thesis
    using reaper_drops_record_of_absent_hash [OF d m p r] d m p r by simp
qed

subsection \<open>Shards of an unsigned transaction\<close>

text \<open>
  The constructor sets the empty address to \<open>Len()\<close> zero bytes; the callbacks and the
  pass change the map of records only, and the clock changes the round.
\<close>

lemma NewTxsPoolsCleaner_fields:
  assumes "NewTxsPoolsCleaner (Some len) dataPool (Some index0) (Some coord) = Inr tpc"
  shows "emptyAddress tpc = replicate len 0 \<and> shardCoordinator tpc = coord \<and>
         rounder tpc = index0 \<and> mapTxsRounds tpc = []"
  using assms by (auto simp: NewTxsPoolsCleaner_def split: option.splits prod.splits)

lemma processReceivedTx_changes_map_only:
  "\<exists>pending. processReceivedTx shardCacherIdentifier tpc key sender receiver ty
              = tpc\<lparr>mapTxsRounds := pending\<rparr>"
proof -
  have "processReceivedTx shardCacherIdentifier tpc key sender receiver ty = tpc \<or>
        (\<exists>store. processReceivedTx shardCacherIdentifier tpc key sender receiver ty =
           tpc\<lparr>mapTxsRounds := mapTxsRounds tpc @
                 [(key, \<lparr>round = rounder tpc, senderShardID = sender,
                         receiverShardID = receiver, txType = ty, txStore = store\<rparr>)]\<rparr>)"
    by (auto simp: processReceivedTx_def split: option.splits)
  moreover have "tpc = tpc\<lparr>mapTxsRounds := mapTxsRounds tpc\<rparr>" by simp
  ultimately show ?thesis by metis
qed

lemma cleanTxsPoolsIfNeeded_changes_map_only:
  "\<exists>pending. fst (snd (cleanTxsPoolsIfNeeded maxRounds tpc pools)) = tpc\<lparr>mapTxsRounds := pending\<rparr>"
  by (auto simp: cleanTxsPoolsIfNeeded_def split: prod.splits)

lemma replicate_four: "replicate 4 x = [x, x, x, x]"
  by (simp add: numeral_eq_Suc)

text \<open>
  Claim C8, amended. For a cleaner constructed over a converter of address length
  \<open>len\<close>, at any round and with any records, and for an unsigned transaction handed to
  \<open>receivedUnsignedTx\<close>: the sender shard is the self shard when the sender address is
  \<open>len\<close> zero bytes and \<open>ComputeId\<close> of the address otherwise, and likewise for the
  receiver shard; these are the shards passed on to \<open>processReceivedTx\<close>.
\<close>

theorem unsigned_tx_shards_by_zero_address:
  assumes "NewTxsPoolsCleaner (Some len) dataPool (Some index0) (Some coord) = Inr tpc0"
  shows "computeSenderAndReceiverShards (tpc0\<lparr>rounder := index, mapTxsRounds := pending\<rparr>) tx =
           Inr (if GetSndAddr tx = replicate len 0 then SelfId coord
                else ComputeId coord (GetSndAddr tx),
                if GetRcvAddr tx = replicate len 0 then SelfId coord
                else ComputeId coord (GetRcvAddr tx)) \<and>
         receivedUnsignedTx shardCacherIdentifier
             (tpc0\<lparr>rounder := index, mapTxsRounds := pending\<rparr>) (Some key) (TransactionHandler tx) =
           processReceivedTx shardCacherIdentifier
             (tpc0\<lparr>rounder := index, mapTxsRounds := pending\<rparr>) key
             (if GetSndAddr tx = replicate len 0 then SelfId coord
              else ComputeId coord (GetSndAddr tx))
             (if GetRcvAddr tx = replicate len 0 then SelfId coord
              else ComputeId coord (GetRcvAddr tx))
             unsignedTx"
proof -
  have "emptyAddress tpc0 = replicate len 0" "shardCoordinator tpc0 = coord"
    using NewTxsPoolsCleaner_fields [OF assms] by simp_all
  then show ?thesis
    by (simp add: computeSenderAndReceiverShards_def getShardFromAddress_def
        receivedUnsignedTx_def)
qed

text \<open>
  Claim C8 as stated fails. For a cleaner of shard 0 constructed over a converter of
  address length 4, whose coordinator computes shard 1 for every address, a sender
  address of length zero is resolved by \<open>ComputeId\<close> to shard 1, not to the self shard,
  and a receiver address of four zero bytes, which is not empty, is resolved to the self
  shard 0, not by \<open>ComputeId\<close>.
\<close>

theorem zero_length_address_not_self_shard:
  "NewTxsPoolsCleaner (Some 4)
     (Some (Some (blockTransactionsPool (scenarioCleaner 100 [])),
            Some (rewardTransactionsPool (scenarioCleaner 100 [])),
            Some (unsignedTransactionsPool (scenarioCleaner 100 []))))
     (Some 100) (Some (shardCoordinator (scenarioCleaner 100 [])))
     = Inr (scenarioCleaner 100 []) \<and>
   SelfId (shardCoordinator (scenarioCleaner 100 [])) = 0 \<and>
   ComputeId (shardCoordinator (scenarioCleaner 100 [])) [0, 0, 0, 0] = 1 \<and>
   computeSenderAndReceiverShards (scenarioCleaner 100 [])
     \<lparr>GetSndAddr = [], GetRcvAddr = [0, 0, 0, 0]\<rparr> = Inr (1, 0)"
  by (simp add: NewTxsPoolsCleaner_def scenarioCleaner_def computeSenderAndReceiverShards_def
      getShardFromAddress_def replicate_four)

text \<open>An address of length zero is not the empty address when \<open>Len()\<close> is positive.\<close>

lemma zero_length_address_is_computed:
  "emptyAddress tpc = replicate n 0 \<Longrightarrow> 0 < n \<Longrightarrow>
   getShardFromAddress tpc [] = Inr (ComputeId (shardCoordinator tpc) [])"
  by (auto simp: getShardFromAddress_def)

theorem unsigned_tx_shards_by_zero_address_witness:
  "NewTxsPoolsCleaner (Some 4)
     (Some (Some (blockTransactionsPool (scenarioCleaner 100 [])),
            Some (rewardTransactionsPool (scenarioCleaner 100 [])),
            Some (unsignedTransactionsPool (scenarioCleaner 100 []))))
     (Some 100) (Some (shardCoordinator (scenarioCleaner 100 [])))
     = Inr (scenarioCleaner 100 []) \<and>
   computeSenderAndReceiverShards (scenarioCleaner 103 [(''H'', scenarioInfo)])
     \<lparr>GetSndAddr = [0, 0, 0, 0], GetRcvAddr = [5, 6, 7, 8]\<rparr> = Inr (0, 1) \<and>
   mapTxsRounds (receivedUnsignedTx (\<lambda>sender receiver. ''0'')
       (scenarioCleaner 103 [(''H'', scenarioInfo)]) (Some ''U'')
       (TransactionHandler \<lparr>GetSndAddr = [0, 0, 0, 0], GetRcvAddr = [5, 6, 7, 8]\<rparr>))
   = [(''H'', scenarioInfo),
      (''U'', \<lparr>round = 103, senderShardID = 0, receiverShardID = 1, txType = unsignedTx,
              txStore = 1\<rparr>)]"
proof -
  have new: "NewTxsPoolsCleaner (Some 4)
     (Some (Some (blockTransactionsPool (scenarioCleaner 100 [])),
            Some (rewardTransactionsPool (scenarioCleaner 100 [])),
            Some (unsignedTransactionsPool (scenarioCleaner 100 []))))
     (Some 100) (Some (shardCoordinator (scenarioCleaner 100 [])))
     = Inr (scenarioCleaner 100 [])"
    by (simp add: NewTxsPoolsCleaner_def scenarioCleaner_def replicate_four)
  have later: "(scenarioCleaner 100 [])\<lparr>rounder := 103, mapTxsRounds := [(''H'', scenarioInfo)]\<rparr>
      = scenarioCleaner 103 [(''H'', scenarioInfo)]"
    by (simp add: scenarioCleaner_def)
  have coord: "SelfId (shardCoordinator (scenarioCleaner 100 [])) = 0"
    "\<And>a. ComputeId (shardCoordinator (scenarioCleaner 100 [])) a = 1"
    by (simp_all add: scenarioCleaner_def)
  have store: "mapTxsRounds (processReceivedTx (\<lambda>sender receiver. ''0'')
       (scenarioCleaner 103 [(''H'', scenarioInfo)]) ''U'' 0 1 unsignedTx)
     = [(''H'', scenarioInfo),
        (''U'', \<lparr>round = 103, senderShardID = 0, receiverShardID = 1, txType = unsignedTx,
                txStore = 1\<rparr>)]"
    by (simp add: scenarioCleaner_def processReceivedTx_def getTransactionPool_def
        blockTx_def rewardTx_def unsignedTx_def)
  show ?thesis
    using unsigned_tx_shards_by_zero_address [OF new, where index = 103
        and pending = "[(''H'', scenarioInfo)]"
        and tx = "\<lparr>GetSndAddr = [0, 0, 0, 0], GetRcvAddr = [5, 6, 7, 8]\<rparr>"
        and shardCacherIdentifier = "\<lambda>sender receiver. ''0''" and key = "''U''"] new
    by (simp add: later coord store replicate_four)
qed

section \<open>Properties of the shard interceptors container factory\<close>

lemma applySizeCheck_fields:
  "ShardCoordinator (applySizeCheck nsc args) = ShardCoordinator args"
  "Accounts (applySizeCheck nsc args) = Accounts args"
  "Hasher (applySizeCheck nsc args) = Hasher args"
  "Store (applySizeCheck nsc args) = Store args"
  "DataPool (applySizeCheck nsc args) = DataPool args"
  "Messenger (applySizeCheck nsc args) = Messenger args"
  "MultiSigner (applySizeCheck nsc args) = MultiSigner args"
  "NodesCoordinator (applySizeCheck nsc args) = NodesCoordinator args"
  "BlackList (applySizeCheck nsc args) = BlackList args"
  "AntifloodHandler (applySizeCheck nsc args) = AntifloodHandler args"
  "KeyGen (applySizeCheck nsc args) = KeyGen args"
  "SingleSigner (applySizeCheck nsc args) = SingleSigner args"
  "AddrConverter (applySizeCheck nsc args) = AddrConverter args"
  "TxFeeHandler (applySizeCheck nsc args) = TxFeeHandler args"
  "BlockSignKeyGen (applySizeCheck nsc args) = BlockSignKeyGen args"
  "BlockSingleSigner (applySizeCheck nsc args) = BlockSingleSigner args"
  "HeaderSigVerifier (applySizeCheck nsc args) = HeaderSigVerifier args"
  "ChainID (applySizeCheck nsc args) = ChainID args"
  "ValidityAttester (applySizeCheck nsc args) = ValidityAttester args"
  "EpochStartTrigger (applySizeCheck nsc args) = EpochStartTrigger args"
  by (simp_all add: applySizeCheck_def)

lemma applySizeCheck_zero:
  "SizeCheckDelta args = 0 \<Longrightarrow> applySizeCheck nsc args = args"
  by (simp add: applySizeCheck_def)

lemma applySizeCheck_Marshalizer:
  "Marshalizer (applySizeCheck nsc args) =
     (if SizeCheckDelta args > 0 then nsc (Marshalizer args) (SizeCheckDelta args)
      else Marshalizer args)"
  by (simp add: applySizeCheck_def)

text \<open>The checks of the function itself, in their order, once \<open>checkBaseParams\<close> passes.\<close>

lemma factory_own_checks_in_order:
  assumes "callCheckBaseParams (applySizeCheck nsc args) = None"
  shows
   "(IfNil (KeyGen args) \<longrightarrow>
         NewShardInterceptorsContainerFactory nsc throttlerResult args = Inl ErrNilKeyGen) \<and>
    (\<not> IfNil (KeyGen args) \<and> IfNil (SingleSigner args) \<longrightarrow>
         NewShardInterceptorsContainerFactory nsc throttlerResult args = Inl ErrNilSingleSigner) \<and>
    (\<not> IfNil (KeyGen args) \<and> \<not> IfNil (SingleSigner args) \<and> IfNil (AddrConverter args) \<longrightarrow>
         NewShardInterceptorsContainerFactory nsc throttlerResult args
           = Inl ErrNilAddressConverter) \<and>
    (\<not> IfNil (KeyGen args) \<and> \<not> IfNil (SingleSigner args) \<and> \<not> IfNil (AddrConverter args) \<and>
     IfNil (TxFeeHandler args) \<longrightarrow>
         NewShardInterceptorsContainerFactory nsc throttlerResult args
           = Inl ErrNilEconomicsFeeHandler) \<and>
    (\<not> IfNil (KeyGen args) \<and> \<not> IfNil (SingleSigner args) \<and> \<not> IfNil (AddrConverter args) \<and>
     \<not> IfNil (TxFeeHandler args) \<and> IfNil (BlockSignKeyGen args) \<longrightarrow>
         NewShardInterceptorsContainerFactory nsc throttlerResult args = Inl ErrNilKeyGen) \<and>
    (\<not> IfNil (KeyGen args) \<and> \<not> IfNil (SingleSigner args) \<and> \<not> IfNil (AddrConverter args) \<and>
     \<not> IfNil (TxFeeHandler args) \<and> \<not> IfNil (BlockSignKeyGen args) \<and>
     IfNil (BlockSingleSigner args) \<longrightarrow>
         NewShardInterceptorsContainerFactory nsc throttlerResult args = Inl ErrNilSingleSigner) \<and>
    (\<not> IfNil (KeyGen args) \<and> \<not> IfNil (SingleSigner args) \<and> \<not> IfNil (AddrConverter args) \<and>
     \<not> IfNil (TxFeeHandler args) \<and> \<not> IfNil (BlockSignKeyGen args) \<and>
     \<not> IfNil (BlockSingleSigner args) \<and> IfNil (HeaderSigVerifier args) \<longrightarrow>
         NewShardInterceptorsContainerFactory nsc throttlerResult args
           = Inl ErrNilHeaderSigVerifier) \<and>
    (\<not> IfNil (KeyGen args) \<and> \<not> IfNil (SingleSigner args) \<and> \<not> IfNil (AddrConverter args) \<and>
     \<not> IfNil (TxFeeHandler args) \<and> \<not> IfNil (BlockSignKeyGen args) \<and>
     \<not> IfNil (BlockSingleSigner args) \<and> \<not> IfNil (HeaderSigVerifier args) \<and>
     ChainID args = [] \<longrightarrow>
         NewShardInterceptorsContainerFactory nsc throttlerResult args = Inl ErrInvalidChainID) \<and>
    (\<not> IfNil (KeyGen args) \<and> \<not> IfNil (SingleSigner args) \<and> \<not> IfNil (AddrConverter args) \<and>
     \<not> IfNil (TxFeeHandler args) \<and> \<not> IfNil (BlockSignKeyGen args) \<and>
     \<not> IfNil (BlockSingleSigner args) \<and> \<not> IfNil (HeaderSigVerifier args) \<and>
     ChainID args \<noteq> [] \<and> IfNil (ValidityAttester args) \<longrightarrow>
         NewShardInterceptorsContainerFactory nsc throttlerResult args
           = Inl ErrNilValidityAttester) \<and>
    (\<not> IfNil (KeyGen args) \<and> \<not> IfNil (SingleSigner args) \<and> \<not> IfNil (AddrConverter args) \<and>
     \<not> IfNil (TxFeeHandler args) \<and> \<not> IfNil (BlockSignKeyGen args) \<and>
     \<not> IfNil (BlockSingleSigner args) \<and> \<not> IfNil (HeaderSigVerifier args) \<and>
     ChainID args \<noteq> [] \<and> \<not> IfNil (ValidityAttester args) \<and>
     IfNil (EpochStartTrigger args) \<longrightarrow>
         NewShardInterceptorsContainerFactory nsc throttlerResult args
           = Inl ErrNilEpochStartTrigger)"
  using assms
  by (simp add: NewShardInterceptorsContainerFactory_def Let_def applySizeCheck_fields)

text \<open>The constructor returns the error of the first check that fails.\<close>

lemma callCheckBaseParams_firstNil:
  "callCheckBaseParams args = firstNil (take 11 (collaboratorErrors args))"
  by (simp add: callCheckBaseParams_def checkBaseParams_def collaboratorErrors_def)

lemma factory_first_failed_check:
  "NewShardInterceptorsContainerFactory nsc throttlerResult args0 =
     (case firstNil (take 18 (collaboratorErrors (applySizeCheck nsc args0))) of
        Some err \<Rightarrow> Inl err
      | None \<Rightarrow>
          if ChainID args0 = [] then Inl ErrInvalidChainID
          else
            (case firstNil (drop 18 (collaboratorErrors (applySizeCheck nsc args0))) of
               Some err \<Rightarrow> Inl err
             | None \<Rightarrow>
                 (case NewShardInterceptorsContainerFactory nsc throttlerResult args0 of
                    Inl err \<Rightarrow> Inl err
                  | Inr factory \<Rightarrow> Inr factory)))"
  by (simp add: NewShardInterceptorsContainerFactory_def Let_def callCheckBaseParams_def
      checkBaseParams_def collaboratorErrors_def applySizeCheck_fields split: sum.splits)


lemma firstNil_Some_failed:
  "firstNil cs = Some err \<Longrightarrow> err \<in> snd ` {c \<in> set cs. IfNil (fst c)}"
  by (induction cs) (auto split: if_splits)

lemma firstNil_None_present:
  "firstNil cs = None \<Longrightarrow> c \<in> set cs \<Longrightarrow> \<not> IfNil (fst c)"
  by (induction cs) (auto split: if_splits)

lemma set_failedChecks:
  "set (failedChecks args) =
     snd ` {c \<in> set (collaboratorErrors args). IfNil (fst c)} \<union>
     (if ChainID args = [] then {ErrInvalidChainID} else {})"
  by (auto simp: failedChecks_def)

lemma failedChecks_empty_iff:
  "failedChecks args = [] \<longleftrightarrow>
     (\<forall>c \<in> set (collaboratorErrors args). \<not> IfNil (fst c)) \<and> ChainID args \<noteq> []"
  by (auto simp: failedChecks_def filter_empty_conv)

lemma factory_failure_cases:
  fixes nsc throttlerResult args
  defines "result \<equiv> NewShardInterceptorsContainerFactory nsc throttlerResult args"
      and "checked \<equiv> applySizeCheck nsc args"
  shows "(\<exists>err \<in> set (failedChecks checked). result = Inl err) \<or> failedChecks checked = []"
proof -
  let ?cs = "collaboratorErrors checked"
  have chain: "ChainID checked = ChainID args"
    by (simp add: checked_def applySizeCheck_fields)
  have split: "set ?cs = set (take 18 ?cs) \<union> set (drop 18 ?cs)"
    by (metis append_take_drop_id set_append)
  note eq = factory_first_failed_check [of nsc throttlerResult args, folded result_def checked_def]
  show ?thesis
  proof (cases "firstNil (take 18 ?cs)")
    case (Some err)
    then have "result = Inl err" using eq by simp
    moreover have "err \<in> set (failedChecks checked)"
      using firstNil_Some_failed [OF Some] split by (auto simp: set_failedChecks)
    ultimately show ?thesis by blast
  next
    case None
    show ?thesis
    proof (cases "ChainID args = []")
      case True
      then have "result = Inl ErrInvalidChainID" using eq None by simp
      moreover have "ErrInvalidChainID \<in> set (failedChecks checked)"
        using True chain by (simp add: set_failedChecks)
      ultimately show ?thesis by blast
    next
      case False
      show ?thesis
      proof (cases "firstNil (drop 18 ?cs)")
        case (Some err)
        then have "result = Inl err" using eq None False by simp
        moreover have "err \<in> set (failedChecks checked)"
          using firstNil_Some_failed [OF Some] split by (auto simp: set_failedChecks)
        ultimately show ?thesis by blast
      next
        case none: None
        have "\<forall>c \<in> set ?cs. \<not> IfNil (fst c)"
          using firstNil_None_present [OF None] firstNil_None_present [OF none] split by blast
        then have "failedChecks checked = []"
          using False chain by (simp add: failedChecks_empty_iff)
        then show ?thesis by simp
      qed
    qed
  qed
qed

text \<open>
  Claim C9, amended. When a check of the constructor fails, the constructor returns the
  named error of one of the checks that fail: for a nil collaborator the error of its
  role in the table \<open>collaboratorErrors\<close>, where \<open>KeyGen\<close> and \<open>BlockSignKeyGen\<close> share
  \<open>ErrNilKeyGen\<close> and \<open>SingleSigner\<close> and \<open>BlockSingleSigner\<close> share \<open>ErrNilSingleSigner\<close>, and
  for an empty \<open>ChainID\<close> the error \<open>ErrInvalidChainID\<close>. So when a single check fails the
  error is the one of that check. In particular a nil \<open>KeyGen\<close> gives \<open>ErrNilKeyGen\<close> once
  \<open>checkBaseParams\<close> passes, and an empty \<open>ChainID\<close> gives \<open>ErrInvalidChainID\<close> once the
  checks before it pass. A factory object is returned only when no check fails. The
  checks see the arguments after the size-check wrapping of the \<open>Marshalizer\<close>, which
  are the arguments as given when \<open>SizeCheckDelta\<close> is 0.
\<close>

theorem factory_error_is_of_a_failed_check:
  "(failedChecks (applySizeCheck nsc args) \<noteq> [] \<longrightarrow>
      (\<exists>err \<in> set (failedChecks (applySizeCheck nsc args)).
         NewShardInterceptorsContainerFactory nsc throttlerResult args = Inl err)) \<and>
   (failedChecks (applySizeCheck nsc args) = [err] \<longrightarrow>
      NewShardInterceptorsContainerFactory nsc throttlerResult args = Inl err) \<and>
   (callCheckBaseParams (applySizeCheck nsc args) = None \<and> IfNil (KeyGen args) \<longrightarrow>
      NewShardInterceptorsContainerFactory nsc throttlerResult args = Inl ErrNilKeyGen) \<and>
   (callCheckBaseParams (applySizeCheck nsc args) = None \<and>
    \<not> IfNil (KeyGen args) \<and> \<not> IfNil (SingleSigner args) \<and> \<not> IfNil (AddrConverter args) \<and>
    \<not> IfNil (TxFeeHandler args) \<and> \<not> IfNil (BlockSignKeyGen args) \<and>
    \<not> IfNil (BlockSingleSigner args) \<and> \<not> IfNil (HeaderSigVerifier args) \<and>
    ChainID args = [] \<longrightarrow>
      NewShardInterceptorsContainerFactory nsc throttlerResult args = Inl ErrInvalidChainID) \<and>
   (NewShardInterceptorsContainerFactory nsc throttlerResult args = Inr factory \<longrightarrow>
      failedChecks (applySizeCheck nsc args) = []) \<and>
   (SizeCheckDelta args = 0 \<longrightarrow> applySizeCheck nsc args = args)"
proof -
  note cases = factory_failure_cases [of nsc args throttlerResult]
  have some: "failedChecks (applySizeCheck nsc args) \<noteq> [] \<longrightarrow>
      (\<exists>err \<in> set (failedChecks (applySizeCheck nsc args)).
         NewShardInterceptorsContainerFactory nsc throttlerResult args = Inl err)"
    using cases by blast
  have single: "failedChecks (applySizeCheck nsc args) = [err] \<longrightarrow>
      NewShardInterceptorsContainerFactory nsc throttlerResult args = Inl err"
    using cases by auto
  have none: "NewShardInterceptorsContainerFactory nsc throttlerResult args = Inr factory \<longrightarrow>
      failedChecks (applySizeCheck nsc args) = []"
    using cases by auto
  have own: "callCheckBaseParams (applySizeCheck nsc args) = None \<and> IfNil (KeyGen args) \<longrightarrow>
      NewShardInterceptorsContainerFactory nsc throttlerResult args = Inl ErrNilKeyGen"
    "callCheckBaseParams (applySizeCheck nsc args) = None \<and>
    \<not> IfNil (KeyGen args) \<and> \<not> IfNil (SingleSigner args) \<and> \<not> IfNil (AddrConverter args) \<and>
    \<not> IfNil (TxFeeHandler args) \<and> \<not> IfNil (BlockSignKeyGen args) \<and>
    \<not> IfNil (BlockSingleSigner args) \<and> \<not> IfNil (HeaderSigVerifier args) \<and>
    ChainID args = [] \<longrightarrow>
      NewShardInterceptorsContainerFactory nsc throttlerResult args = Inl ErrInvalidChainID"
    using factory_own_checks_in_order [of nsc args throttlerResult] by blast+
  show ?thesis
    using some single none own applySizeCheck_zero [of args nsc] by blast
qed

text \<open>
  Claim C9 as stated fails: the errors are not distinct for each collaborator. With every
  other collaborator present, a nil \<open>KeyGen\<close> and a nil \<open>BlockSignKeyGen\<close> give the same
  error \<open>ErrNilKeyGen\<close>.
\<close>

theorem factory_error_shared_by_two_collaborators:
  "failedChecks (scenarioArgs NilHandle (Handle 9) (Handle 6) 0) = [ErrNilKeyGen] \<and>
   KeyGen (scenarioArgs NilHandle (Handle 9) (Handle 6) 0) = NilHandle \<and>
   BlockSignKeyGen (scenarioArgs NilHandle (Handle 9) (Handle 6) 0) = Handle 9 \<and>
   NewShardInterceptorsContainerFactory scenarioWrapper (Inr (Handle 21))
     (scenarioArgs NilHandle (Handle 9) (Handle 6) 0) = Inl ErrNilKeyGen \<and>
   failedChecks (scenarioArgs (Handle 8) NilHandle (Handle 6) 0) = [ErrNilKeyGen] \<and>
   KeyGen (scenarioArgs (Handle 8) NilHandle (Handle 6) 0) = Handle 8 \<and>
   BlockSignKeyGen (scenarioArgs (Handle 8) NilHandle (Handle 6) 0) = NilHandle \<and>
   NewShardInterceptorsContainerFactory scenarioWrapper (Inr (Handle 21))
     (scenarioArgs (Handle 8) NilHandle (Handle 6) 0) = Inl ErrNilKeyGen"
  by (simp add: NewShardInterceptorsContainerFactory_def Let_def applySizeCheck_def
      callCheckBaseParams_def checkBaseParams_def failedChecks_def collaboratorErrors_def
      scenarioArgs_def IfNil_def)

theorem factory_error_is_of_a_failed_check_witness:
  "failedChecks (applySizeCheck scenarioWrapper (scenarioArgs (Handle 8) (Handle 9) NilHandle 0))
     = [ErrNilMarshalizer] \<and>
   NewShardInterceptorsContainerFactory scenarioWrapper (Inr (Handle 21))
     (scenarioArgs (Handle 8) (Handle 9) NilHandle 0) = Inl ErrNilMarshalizer \<and>
   callCheckBaseParams (applySizeCheck scenarioWrapper (scenarioArgs NilHandle NilHandle (Handle 6) 7))
     = None \<and>
   IfNil (KeyGen (scenarioArgs NilHandle NilHandle (Handle 6) 7)) \<and>
   NewShardInterceptorsContainerFactory scenarioWrapper (Inr (Handle 21))
     (scenarioArgs NilHandle NilHandle (Handle 6) 7) = Inl ErrNilKeyGen"
proof -
  have failed: "failedChecks
      (applySizeCheck scenarioWrapper (scenarioArgs (Handle 8) (Handle 9) NilHandle 0))
     = [ErrNilMarshalizer]"
    by (simp add: applySizeCheck_def failedChecks_def collaboratorErrors_def
        scenarioArgs_def IfNil_def)
  have base: "callCheckBaseParams
      (applySizeCheck scenarioWrapper (scenarioArgs NilHandle NilHandle (Handle 6) 7)) = None"
    by (simp add: applySizeCheck_def callCheckBaseParams_def checkBaseParams_def
        scenarioArgs_def scenarioWrapper_def IfNil_def)
  have nil: "IfNil (KeyGen (scenarioArgs NilHandle NilHandle (Handle 6) 7))"
    by (simp add: scenarioArgs_def IfNil_def)
  show ?thesis
    using factory_error_is_of_a_failed_check
        [where nsc = scenarioWrapper and throttlerResult = "Inr (Handle 21)"
           and args = "scenarioArgs (Handle 8) (Handle 9) NilHandle 0"
           and err = ErrNilMarshalizer]
      factory_error_is_of_a_failed_check
        [where nsc = scenarioWrapper and throttlerResult = "Inr (Handle 21)"
           and args = "scenarioArgs NilHandle NilHandle (Handle 6) 7"]
      failed base nil
    by simp
qed

text \<open>
  The \<open>Marshalizer\<close> is wrapped before it is checked. With a wrapper that returns an
  object whatever it wraps (the wrapper is not part of the sources at hand), a nil
  \<open>Marshalizer\<close> with a positive \<open>SizeCheckDelta\<close> passes the checks and a factory is
  returned around the wrapper.
\<close>

lemma factory_wraps_nil_marshalizer:
  "\<exists>factory. NewShardInterceptorsContainerFactory scenarioWrapper (Inr (Handle 21))
       (scenarioArgs (Handle 8) (Handle 9) NilHandle 1) = Inr factory \<and>
     base_marshalizer (baseFactory factory) = Handle 99"
  by (simp add: NewShardInterceptorsContainerFactory_def Let_def applySizeCheck_def
      callCheckBaseParams_def checkBaseParams_def scenarioArgs_def scenarioWrapper_def IfNil_def)

end
